theory Spec2Isabelle
  imports Main
begin

section \<open>The CSS selector builder of 06-objects-tasks.js\<close>

subsection \<open>Objects, arrays and the store\<close>

text \<open>
  The builder creates its selectors with \<^verbatim>\<open>Object.create\<close>, so a selector is an object
  with a prototype link and a few own properties; the properties \<^verbatim>\<open>elClass\<close>,
  \<^verbatim>\<open>elAttrs\<close> and \<^verbatim>\<open>elPseudoClass\<close> hold references to arrays, which \<^verbatim>\<open>push\<close>
  updates in place. Objects and arrays therefore live in a store and are named by
  addresses. An own property that is absent, or holds \<^verbatim>\<open>undefined\<close>, is \<open>None\<close>.
\<close>

type_synonym addr = nat

datatype error = DuplicateError | OrderError | TypeError | SyntaxError

record selector =
  prototype :: "addr option"
  prot :: "addr option"
  el :: "string option"
  elID :: "string option"
  elClass :: "addr option"
  elAttrs :: "addr option"
  elPseudoClass :: "addr option"
  elPseudoElement :: "string option"

text \<open>
  \<open>Selector\<close> is an object that reaches the methods of the class: the instance, the
  object \<^verbatim>\<open>prot\<close> of the constructor, and every object made from them by
  \<^verbatim>\<open>Object.create\<close>. A prototype of \<open>None\<close> stands for the end of the modelled chain
  (\<^verbatim>\<open>CssSelectorBuilder.prototype\<close> or \<^verbatim>\<open>Object.prototype\<close>, which hold none of the
  data properties). \<open>Combined\<close> is the object literal returned by \<^verbatim>\<open>combine\<close>:
  the properties \<^verbatim>\<open>combined\<close>, \<^verbatim>\<open>selectors1\<close>, \<^verbatim>\<open>selectors2\<close> and the method
  \<^verbatim>\<open>stringify\<close>, nothing else.
\<close>

datatype jsobj = Selector selector | Combined string addr addr

record heap =
  objs :: "jsobj list"
  arrs :: "string list list"

text \<open>
  Reading a property walks the prototype chain. \<^verbatim>\<open>Object.create\<close> links a new object to
  an older one, so a prototype has a smaller address than the object; the walk stops
  at a link that does not.
\<close>

function lookup :: "(selector \<Rightarrow> 'a option) \<Rightarrow> heap \<Rightarrow> addr \<Rightarrow> 'a option" where
  "lookup f h a =
     (if a < length (objs h) then
        (case objs h ! a of
           Combined c s1 s2 \<Rightarrow> None
         | Selector s \<Rightarrow>
             (case f s of
                Some v \<Rightarrow> Some v
              | None \<Rightarrow>
                  (case prototype s of
                     None \<Rightarrow> None
                   | Some p \<Rightarrow> if p < a then lookup f h p else None)))
      else None)"
  by pat_completeness auto
termination
  by (relation "measure (\<lambda>(f, h, a). a)") auto

declare lookup.simps [simp del]

text \<open>JavaScript truthiness: a string is truthy unless empty, an array always.\<close>

definition truthy_str :: "string option \<Rightarrow> bool" where
  "truthy_str v = (case v of None \<Rightarrow> False | Some s \<Rightarrow> s \<noteq> [])"

definition truthy_ref :: "addr option \<Rightarrow> bool" where
  "truthy_ref v = (case v of None \<Rightarrow> False | Some k \<Rightarrow> True)"

definition blank :: "addr option \<Rightarrow> selector" where
  "blank p = \<lparr>prototype = p, prot = None, el = None, elID = None, elClass = None,
     elAttrs = None, elPseudoClass = None, elPseudoElement = None\<rparr>"

definition Object_create :: "heap \<Rightarrow> addr \<Rightarrow> addr \<times> heap" where
  "Object_create h p = (length (objs h), h\<lparr>objs := objs h @ [Selector (blank (Some p))]\<rparr>)"

definition assign :: "heap \<Rightarrow> addr \<Rightarrow> (selector \<Rightarrow> selector) \<Rightarrow> heap" where
  "assign h a upd =
     h\<lparr>objs := (objs h)[a := (case objs h ! a of
                                 Selector s \<Rightarrow> Selector (upd s)
                               | Combined c s1 s2 \<Rightarrow> Combined c s1 s2)]\<rparr>"

definition new_array :: "heap \<Rightarrow> string list \<Rightarrow> addr \<times> heap" where
  "new_array h xs = (length (arrs h), h\<lparr>arrs := arrs h @ [xs]\<rparr>)"

definition push :: "heap \<Rightarrow> addr \<Rightarrow> string \<Rightarrow> heap" where
  "push h k v = h\<lparr>arrs := (arrs h)[k := arrs h ! k @ [v]]\<rparr>"

text \<open>The contents of an array; a reference outside the store denotes no array.\<close>

definition array :: "heap \<Rightarrow> addr \<Rightarrow> string list" where
  "array h k = (if k < length (arrs h) then arrs h ! k else [])"

text \<open>
  The builder methods exist on selectors only: on the literal of \<^verbatim>\<open>combine\<close> a call of
  \<^verbatim>\<open>element\<close>, \<^verbatim>\<open>id\<close>, ... is a \<^verbatim>\<open>TypeError\<close> (not a function).
\<close>

definition is_builder :: "heap \<Rightarrow> addr \<Rightarrow> bool" where
  "is_builder h a =
     (if a < length (objs h) then
        (case objs h ! a of Selector s \<Rightarrow> True | Combined c s1 s2 \<Rightarrow> False)
      else False)"

subsection \<open>The constructor and the exported instance\<close>

text \<open>
  \<^verbatim>\<open>new CssSelectorBuilder()\<close> allocates the instance and then the literal \<^verbatim>\<open>prot\<close>,
  whose data properties are read from the instance and are all \<^verbatim>\<open>undefined\<close>. The
  literal has no property \<^verbatim>\<open>prot\<close> of its own.
\<close>

definition cssSelectorBuilder :: addr where
  "cssSelectorBuilder = 0"

definition init_heap :: heap where
  "init_heap =
     \<lparr>objs = [Selector ((blank None)\<lparr>prot := Some 1\<rparr>), Selector (blank None)], arrs = []\<rparr>"

subsection \<open>The methods\<close>

text \<open>
  Each method takes the store and the receiver \<open>this\<close> and returns the error thrown, or
  the address of the object returned together with the store after the call. Every
  \<^verbatim>\<open>throw\<close> comes before the first allocation, so a failed call leaves the store as
  it was.
\<close>

definition element :: "heap \<Rightarrow> addr \<Rightarrow> string \<Rightarrow> error + addr \<times> heap" where
  "element h this v =
     (if \<not> is_builder h this then Inl TypeError
      else if truthy_str (lookup el h this) then Inl DuplicateError
      else if truthy_str (lookup elID h this) then Inl OrderError
      else if truthy_ref (lookup elAttrs h this) then Inl OrderError
      else if truthy_ref (lookup elClass h this) then Inl OrderError
      else if truthy_ref (lookup elPseudoClass h this) then Inl OrderError
      else if truthy_str (lookup elPseudoElement h this) then Inl OrderError
      else (case lookup prot h this of
              None \<Rightarrow> Inl TypeError
            | Some p \<Rightarrow>
                let (obj, h1) = Object_create h p
                in Inr (obj, assign h1 obj (\<lambda>s. s\<lparr>el := Some v\<rparr>))))"

definition id_sel :: "heap \<Rightarrow> addr \<Rightarrow> string \<Rightarrow> error + addr \<times> heap" where
  "id_sel h this v =
     (if \<not> is_builder h this then Inl TypeError
      else if truthy_str (lookup elID h this) then Inl DuplicateError
      else if truthy_ref (lookup elAttrs h this) then Inl OrderError
      else if truthy_ref (lookup elClass h this) then Inl OrderError
      else if truthy_ref (lookup elPseudoClass h this) then Inl OrderError
      else if truthy_str (lookup elPseudoElement h this) then Inl OrderError
      else let (obj, h1) = Object_create h this
           in Inr (obj, assign h1 obj (\<lambda>s. s\<lparr>elID := Some v\<rparr>)))"

definition class_sel :: "heap \<Rightarrow> addr \<Rightarrow> string \<Rightarrow> error + addr \<times> heap" where
  "class_sel h this v =
     (if \<not> is_builder h this then Inl TypeError
      else if truthy_ref (lookup elAttrs h this) then Inl OrderError
      else if truthy_ref (lookup elPseudoClass h this) then Inl OrderError
      else if truthy_str (lookup elPseudoElement h this) then Inl OrderError
      else let (obj, h1) = Object_create h this
           in (case lookup elClass h1 obj of
                 Some k \<Rightarrow> Inr (obj, push h1 k v)
               | None \<Rightarrow>
                   let (k, h2) = new_array h1 [v]
                   in Inr (obj, assign h2 obj (\<lambda>s. s\<lparr>elClass := Some k\<rparr>))))"

definition attr :: "heap \<Rightarrow> addr \<Rightarrow> string \<Rightarrow> error + addr \<times> heap" where
  "attr h this v =
     (if \<not> is_builder h this then Inl TypeError
      else if truthy_ref (lookup elPseudoClass h this) then Inl OrderError
      else if truthy_str (lookup elPseudoElement h this) then Inl OrderError
      else let (obj, h1) = Object_create h this
           in (case lookup elAttrs h1 obj of
                 Some k \<Rightarrow> Inr (obj, push h1 k v)
               | None \<Rightarrow>
                   let (k, h2) = new_array h1 [v]
                   in Inr (obj, assign h2 obj (\<lambda>s. s\<lparr>elAttrs := Some k\<rparr>))))"

definition pseudoClass :: "heap \<Rightarrow> addr \<Rightarrow> string \<Rightarrow> error + addr \<times> heap" where
  "pseudoClass h this v =
     (if \<not> is_builder h this then Inl TypeError
      else if truthy_str (lookup elPseudoElement h this) then Inl OrderError
      else let (obj, h1) = Object_create h this
           in (case lookup elPseudoClass h1 obj of
                 Some k \<Rightarrow> Inr (obj, push h1 k v)
               | None \<Rightarrow>
                   let (k, h2) = new_array h1 [v]
                   in Inr (obj, assign h2 obj (\<lambda>s. s\<lparr>elPseudoClass := Some k\<rparr>))))"

definition pseudoElement :: "heap \<Rightarrow> addr \<Rightarrow> string \<Rightarrow> error + addr \<times> heap" where
  "pseudoElement h this v =
     (if \<not> is_builder h this then Inl TypeError
      else if truthy_str (lookup elPseudoElement h this) then Inl DuplicateError
      else let (obj, h1) = Object_create h this
           in Inr (obj, assign h1 obj (\<lambda>s. s\<lparr>elPseudoElement := Some v\<rparr>)))"

text \<open>
  \<^verbatim>\<open>stringify\<close>. The two \<^verbatim>\<open>forEach\<close> loops append to \<^verbatim>\<open>resultStr\<close> from left to
  right. On the literal of \<^verbatim>\<open>combine\<close> the string \<^verbatim>\<open>combined\<close> is returned when truthy;
  the literal has none of the other properties, so the rest of the body adds nothing.
  An address outside the store denotes no object.
\<close>

definition forEach_concat :: "string \<Rightarrow> string list \<Rightarrow> string \<Rightarrow> string" where
  "forEach_concat pre xs resultStr = foldl (\<lambda>r s. r @ pre @ s) resultStr xs"

definition stringify :: "heap \<Rightarrow> addr \<Rightarrow> string" where
  "stringify h this =
     (if this < length (objs h) then
        (case objs h ! this of
           Combined c s1 s2 \<Rightarrow> if c \<noteq> [] then c else []
         | Selector s \<Rightarrow>
             (let r0 = [];
                  r1 = (case lookup el h this of
                          None \<Rightarrow> r0
                        | Some e \<Rightarrow> if e \<noteq> [] then r0 @ e else r0);
                  r2 = (case lookup elID h this of
                          None \<Rightarrow> r1
                        | Some i \<Rightarrow> if i \<noteq> [] then r1 @ ''#'' @ i else r1);
                  r3 = (case lookup elClass h this of
                          None \<Rightarrow> r2
                        | Some k \<Rightarrow>
                            if length (array h k) \<noteq> 0
                            then forEach_concat ''.'' (array h k) r2 else r2);
                  r4 = (case lookup elAttrs h this of
                          None \<Rightarrow> r3
                        | Some k \<Rightarrow>
                            if length (array h k) \<noteq> 0
                            then r3 @ ''['' @ hd (array h k) @ '']'' else r3);
                  r5 = (case lookup elPseudoClass h this of
                          None \<Rightarrow> r4
                        | Some k \<Rightarrow>
                            if length (array h k) \<noteq> 0
                            then forEach_concat '':'' (array h k) r4 else r4);
                  r6 = (case lookup elPseudoElement h this of
                          None \<Rightarrow> r5
                        | Some p \<Rightarrow> if p \<noteq> [] then r5 @ ''::'' @ p else r5)
              in r6))
      else [])"

text \<open>
  \<^verbatim>\<open>combine\<close> calls \<^verbatim>\<open>stringify\<close> on both arguments, which every object of the store
  has, and returns a new literal.
\<close>

definition combine :: "heap \<Rightarrow> addr \<Rightarrow> addr \<Rightarrow> string \<Rightarrow> addr \<Rightarrow> error + addr \<times> heap" where
  "combine h this selectors1 combinator selectors2 =
     (if \<not> is_builder h this then Inl TypeError
      else if \<not> selectors1 < length (objs h) then Inl TypeError
      else if \<not> selectors2 < length (objs h) then Inl TypeError
      else let comb = '' '' @ combinator @ '' '';
               s1 = stringify h selectors1;
               s2 = stringify h selectors2;
               combined = s1 @ comb @ s2
           in Inr (length (objs h),
                   h\<lparr>objs := objs h @ [Combined combined selectors1 selectors2]\<rparr>))"

subsection \<open>Sequences of calls\<close>

datatype part =
  PElement string | PId string | PClass string | PAttr string
  | PPseudoClass string | PPseudoElement string

fun apply_part :: "heap \<Rightarrow> addr \<Rightarrow> part \<Rightarrow> error + addr \<times> heap" where
  "apply_part h this (PElement v) = element h this v"
| "apply_part h this (PId v) = id_sel h this v"
| "apply_part h this (PClass v) = class_sel h this v"
| "apply_part h this (PAttr v) = attr h this v"
| "apply_part h this (PPseudoClass v) = pseudoClass h this v"
| "apply_part h this (PPseudoElement v) = pseudoElement h this v"

text \<open>A chain \<^verbatim>\<open>this.m1(v1).m2(v2)...\<close>: each call is made on the result of the one before.\<close>

fun chain :: "heap \<Rightarrow> addr \<Rightarrow> part list \<Rightarrow> error + addr \<times> heap" where
  "chain h this [] = Inr (this, h)"
| "chain h this (p # ps) =
     (case apply_part h this p of
        Inl e \<Rightarrow> Inl e
      | Inr (obj, h') \<Rightarrow> chain h' obj ps)"

text \<open>The expression \<^verbatim>\<open>cssSelectorBuilder.m1(v1)...mn(vn).stringify()\<close>.\<close>

definition stringify_chain :: "part list \<Rightarrow> error + string" where
  "stringify_chain ps =
     (case chain init_heap cssSelectorBuilder ps of
        Inl e \<Rightarrow> Inl e
      | Inr (obj, h) \<Rightarrow> Inr (stringify h obj))"

text \<open>
  Any program over the builder: each call names its receiver and arguments among the
  objects of the store. \<open>exec\<close> gives the store after the call; a call that throws
  leaves it unchanged.
\<close>

datatype call = Call addr part | Combine addr addr string addr

fun exec :: "heap \<Rightarrow> call \<Rightarrow> heap" where
  "exec h (Call this p) =
     (case apply_part h this p of Inl e \<Rightarrow> h | Inr (obj, h') \<Rightarrow> h')"
| "exec h (Combine this a c b) =
     (case combine h this a c b of Inl e \<Rightarrow> h | Inr (obj, h') \<Rightarrow> h')"

definition run :: "call list \<Rightarrow> heap" where
  "run cs = foldl exec init_heap cs"

subsection \<open>The rendering in the words of the specification\<close>

text \<open>
  The specification describes \<^verbatim>\<open>stringify\<close> on a simple selector as a concatenation
  of six parts in a fixed order: the element, \<^verbatim>\<open>#\<close> and the id, every class after a
  \<^verbatim>\<open>.\<close>, the first attribute in brackets, every pseudo-class after a \<^verbatim>\<open>:\<close>, and
  \<^verbatim>\<open>::\<close> and the pseudo-element; an absent field contributes nothing.
\<close>

definition stringify_spec ::
  "string option \<Rightarrow> string option \<Rightarrow> string list \<Rightarrow> string list \<Rightarrow> string list
    \<Rightarrow> string option \<Rightarrow> string" where
  "stringify_spec elem ident classes attributes pseudoClasses pseudoElem =
     (case elem of None \<Rightarrow> [] | Some e \<Rightarrow> e) @
     (case ident of None \<Rightarrow> [] | Some i \<Rightarrow> ''#'' @ i) @
     concat (map (\<lambda>c. ''.'' @ c) classes) @
     (case attributes of [] \<Rightarrow> [] | a # rest \<Rightarrow> ''['' @ a @ '']'') @
     concat (map (\<lambda>p. '':'' @ p) pseudoClasses) @
     (case pseudoElem of None \<Rightarrow> [] | Some p \<Rightarrow> ''::'' @ p)"

text \<open>
  The sequence a property holds: empty when the property is absent, the contents of the
  array otherwise.
\<close>

definition sequence :: "heap \<Rightarrow> addr option \<Rightarrow> string list" where
  "sequence h r = (case r of None \<Rightarrow> [] | Some k \<Rightarrow> array h k)"

text \<open>A string property as the code's truthiness tests see it: the empty string counts as absent.\<close>

definition nonempty :: "string option \<Rightarrow> string option" where
  "nonempty v = (case v of None \<Rightarrow> None | Some s \<Rightarrow> if s = [] then None else Some s)"

subsection \<open>Stores that grow\<close>

text \<open>\<open>extends h h'\<close>: the store \<open>h'\<close> has every object of \<open>h\<close>, unchanged, at its address.\<close>

definition extends :: "heap \<Rightarrow> heap \<Rightarrow> bool" where
  "extends h h' = (\<exists>ys. objs h' = objs h @ ys)"

subsection \<open>Well-formed stores\<close>

text \<open>
  \<open>own f h\<close> collects the values that the objects of the store hold in their own property
  \<open>f\<close>. In a well-formed store every array reference is allocated, no array is shared
  between two of the properties \<^verbatim>\<open>elClass\<close>, \<^verbatim>\<open>elAttrs\<close> and \<^verbatim>\<open>elPseudoClass\<close>,
  and no array is empty (an array is created with one element and only grows).
\<close>

definition own :: "(selector \<Rightarrow> 'a option) \<Rightarrow> heap \<Rightarrow> 'a set" where
  "own f h = {v. \<exists>s. Selector s \<in> set (objs h) \<and> f s = Some v}"

definition wf :: "heap \<Rightarrow> bool" where
  "wf h =
     (own elClass h \<union> own elAttrs h \<union> own elPseudoClass h \<subseteq> {..<length (arrs h)} \<and>
      own elClass h \<inter> own elAttrs h = {} \<and>
      own elClass h \<inter> own elPseudoClass h = {} \<and>
      own elAttrs h \<inter> own elPseudoClass h = {} \<and>
      [] \<notin> set (arrs h))"

text \<open>
  \<^verbatim>\<open>Object.create\<close> links a new object to one that exists: in a store built by the
  methods every prototype is older than its object, and the only property \<^verbatim>\<open>prot\<close> is
  the one of the instance.
\<close>

definition older :: "heap \<Rightarrow> bool" where
  "older h =
     (2 \<le> length (objs h) \<and> own prot h \<subseteq> {1} \<and>
      (\<forall>a s p. a < length (objs h) \<and> objs h ! a = Selector s \<and> prototype s = Some p \<longrightarrow> p < a))"

section \<open>The rectangle and the JSON helpers of 06-objects-tasks.js\<close>

subsection \<open>Rectangle\<close>

text \<open>
  \<^verbatim>\<open>new Rectangle(width, height)\<close> stores its two arguments in the fields \<^verbatim>\<open>width\<close> and
  \<^verbatim>\<open>height\<close>; the method \<^verbatim>\<open>getArea\<close> multiplies the fields of its receiver. The type
  of numbers is left open: any type with a multiplication.
\<close>

record 'n rectangle =
  width :: 'n
  height :: 'n

definition Rectangle :: "'n \<Rightarrow> 'n \<Rightarrow> 'n rectangle" where
  "Rectangle w h = \<lparr>width = w, height = h\<rparr>"

definition getArea :: "'n::times rectangle \<Rightarrow> 'n" where
  "getArea this = width this * height this"

subsection \<open>JSON values and getJSON\<close>

text \<open>
  The values that JSON texts denote, over a type \<open>'n\<close> of numbers; an object lists its
  keys in the engine's enumeration order. Where a number is printed it is an integer
  (JavaScript prints an integer below \<open>10\<^sup>2\<^sup>1\<close> in magnitude in decimal).
\<close>

datatype 'n json =
  JNull | JBool bool | JNum 'n | JStr string | JArr "'n json list"
  | JObj "(string \<times> 'n json) list"

definition digit :: "nat \<Rightarrow> char" where
  "digit d = ''0123456789abcdef'' ! d"

function decimal :: "nat \<Rightarrow> string" where
  "decimal n = (if n < 10 then [digit n] else decimal (n div 10) @ [digit (n mod 10)])"
  by pat_completeness auto
termination
  by (relation "measure (\<lambda>n. n)") auto

declare decimal.simps [simp del]

definition Number_toString :: "int \<Rightarrow> string" where
  "Number_toString i = (if i < 0 then ''-'' @ decimal (nat (- i)) else decimal (nat i))"

text \<open>
  Modelled from the spec: \<^verbatim>\<open>JSON.stringify\<close> belongs to the JavaScript engine, not to
  the repository, and the specification names it "standard JSON serialization of the
  given value, with object keys in engine-default enumeration order". The model follows
  ECMAScript's serialization on the values of \<open>json\<close>: no white space, strings quoted with
  the escapes for the quote, the backslash and the control characters.
\<close>

definition quote_char :: "char \<Rightarrow> string" where
  "quote_char c =
     (if c = CHR 0x22 then [CHR 0x5C, CHR 0x22]
      else if c = CHR 0x5C then [CHR 0x5C, CHR 0x5C]
      else if c = CHR 0x08 then [CHR 0x5C, CHR ''b'']
      else if c = CHR 0x09 then [CHR 0x5C, CHR ''t'']
      else if c = CHR 0x0A then [CHR 0x5C, CHR ''n'']
      else if c = CHR 0x0C then [CHR 0x5C, CHR ''f'']
      else if c = CHR 0x0D then [CHR 0x5C, CHR ''r'']
      else if (of_char c :: nat) < 32
        then [CHR 0x5C, CHR ''u'', CHR ''0'', CHR ''0'',
              digit (of_char c div 16), digit (of_char c mod 16)]
      else [c])"

definition QuoteJSONString :: "string \<Rightarrow> string" where
  "QuoteJSONString s = [CHR 0x22] @ concat (map quote_char s) @ [CHR 0x22]"

fun join :: "string \<Rightarrow> string list \<Rightarrow> string" where
  "join sep [] = []"
| "join sep [x] = x"
| "join sep (x # y # ys) = x @ sep @ join sep (y # ys)"

fun JSON_stringify :: "int json \<Rightarrow> string" where
  "JSON_stringify JNull = ''null''"
| "JSON_stringify (JBool b) = (if b then ''true'' else ''false'')"
| "JSON_stringify (JNum i) = Number_toString i"
| "JSON_stringify (JStr s) = QuoteJSONString s"
| "JSON_stringify (JArr xs) = ''['' @ join '','' (map JSON_stringify xs) @ '']''"
| "JSON_stringify (JObj kvs) =
     ''{'' @ join '','' (map (\<lambda>(k, v). QuoteJSONString k @ '':'' @ JSON_stringify v) kvs) @ ''}''"

definition getJSON :: "int json \<Rightarrow> string" where
  "getJSON obj = JSON_stringify obj"

subsection \<open>fromJSON\<close>

text \<open>
  Values and properties of the objects \<^verbatim>\<open>fromJSON\<close> works on. A value is a parsed JSON
  value or a method. A property is a data property, with its value and whether it is
  writable, or an accessor, with its getter and its setter where it has them; a setter is
  named by a value of \<open>'s\<close>, and its code, which is the caller's, is a parameter.
\<close>

datatype ('m, 'n) jsval = Data "'n json" | Method 'm

datatype ('m, 'n, 's) property =
  Value "('m, 'n) jsval" bool | Accessor "'m option" "'s option"

text \<open>
  The argument \<^verbatim>\<open>proto\<close> is an ordinary object: the properties found along its
  prototype chain, nearest first (a frozen object has read-only properties, a class
  prototype may have getters and setters), and whether the chain ends in
  \<^verbatim>\<open>Object.prototype\<close>, whose built-in methods are writable and are not listed.
  \<^verbatim>\<open>null\<close> behaves as the object without properties whose chain does not.
\<close>

datatype ('m, 'n, 's) proto =
  Proto (pprops: "(string \<times> ('m, 'n, 's) property) list") (ends_in_Object_prototype: bool)

text \<open>
  The object \<^verbatim>\<open>fromJSON\<close> returns: a prototype link and its own properties in the order
  of their creation. The link is the argument \<^verbatim>\<open>proto\<close>, unless an assignment to
  \<^verbatim>\<open>__proto__\<close> replaces it by a parsed value or by \<^verbatim>\<open>null\<close>.
\<close>

datatype ('m, 'n, 's) link = Given "('m, 'n, 's) proto" | Parsed "'n json" | Null

record ('m, 'n, 's) object =
  link :: "('m, 'n, 's) link"
  props :: "(string \<times> ('m, 'n, 's) property) list"

text \<open>
  \<^verbatim>\<open>Object.keys\<close>: a \<^verbatim>\<open>TypeError\<close> on \<^verbatim>\<open>null\<close>, no key on a boolean or a number, the
  indices on a string or an array, the keys of an object. \<open>own_props\<close> pairs each key
  with the value that \<^verbatim>\<open>obj[key]\<close> reads.
\<close>

definition indices :: "nat \<Rightarrow> string list" where
  "indices n = map decimal [0..<n]"

fun Object_keys :: "'n json \<Rightarrow> error + string list" where
  "Object_keys JNull = Inl TypeError"
| "Object_keys (JBool b) = Inr []"
| "Object_keys (JNum i) = Inr []"
| "Object_keys (JStr s) = Inr (indices (length s))"
| "Object_keys (JArr xs) = Inr (indices (length xs))"
| "Object_keys (JObj kvs) = Inr (map fst kvs)"

fun own_props :: "'n json \<Rightarrow> (string \<times> 'n json) list" where
  "own_props (JStr s) = zip (indices (length s)) (map (\<lambda>c. JStr [c]) s)"
| "own_props (JArr xs) = zip (indices (length xs)) xs"
| "own_props (JObj kvs) = kvs"
| "own_props v = []"

fun put :: "string \<Rightarrow> 'p \<Rightarrow> (string \<times> 'p) list \<Rightarrow> (string \<times> 'p) list" where
  "put k v [] = [(k, v)]"
| "put k v ((k', v') # xs) = (if k = k' then (k, v) # xs else (k', v') # put k v xs)"

text \<open>
  The property of a name that an object inherits: the first one along its prototype
  chain. A parsed value holds its keys as writable data properties.
\<close>

fun inherited :: "('m, 'n, 's) link \<Rightarrow> string \<Rightarrow> ('m, 'n, 's) property option" where
  "inherited (Given p) key = map_of (pprops p) key"
| "inherited (Parsed v) key = map_option (\<lambda>x. Value (Data x) True) (map_of (own_props v) key)"
| "inherited Null key = None"

fun reaches_Object_prototype :: "('m, 'n, 's) link \<Rightarrow> bool" where
  "reaches_Object_prototype (Given p) = ends_in_Object_prototype p"
| "reaches_Object_prototype (Parsed v) = True"
| "reaches_Object_prototype Null = False"

text \<open>
  The assignment \<^verbatim>\<open>newObj[key] = obj[key]\<close>, in a module that is not in strict mode. The
  first property of that name on the object or along its chain decides: a writable data
  property lets the assignment create or overwrite the own property; a read-only one, or
  an accessor without a setter, drops the assignment silently; an accessor with a setter
  runs the setter on the object. Where no property of that name is found, the own
  property is created, except for \<^verbatim>\<open>__proto__\<close> on a chain that ends in
  \<^verbatim>\<open>Object.prototype\<close>: the setter there replaces the prototype when the value is an
  object, an array or \<^verbatim>\<open>null\<close> and does nothing otherwise.
\<close>

definition define_own :: "('m, 'n, 's) object \<Rightarrow> string \<Rightarrow> 'n json \<Rightarrow> ('m, 'n, 's) object" where
  "define_own newObj key v = newObj\<lparr>props := put key (Value (Data v) True) (props newObj)\<rparr>"

definition set_prototype :: "('m, 'n, 's) object \<Rightarrow> 'n json \<Rightarrow> ('m, 'n, 's) object" where
  "set_prototype newObj v =
     (case v of
        JObj kvs \<Rightarrow> newObj\<lparr>link := Parsed v\<rparr>
      | JArr xs \<Rightarrow> newObj\<lparr>link := Parsed v\<rparr>
      | JNull \<Rightarrow> newObj\<lparr>link := Null\<rparr>
      | _ \<Rightarrow> newObj)"

definition assign_found ::
  "('s \<Rightarrow> ('m, 'n, 's) object \<Rightarrow> 'n json \<Rightarrow> error + ('m, 'n, 's) object)
    \<Rightarrow> ('m, 'n, 's) property \<Rightarrow> ('m, 'n, 's) object \<Rightarrow> string \<Rightarrow> 'n json
    \<Rightarrow> error + ('m, 'n, 's) object" where
  "assign_found call_setter p newObj key v =
     (case p of
        Value old writable \<Rightarrow> if writable then Inr (define_own newObj key v) else Inr newObj
      | Accessor getter setter \<Rightarrow>
          (case setter of
             None \<Rightarrow> Inr newObj
           | Some s \<Rightarrow> call_setter s newObj v))"

definition set_prop ::
  "('s \<Rightarrow> ('m, 'n, 's) object \<Rightarrow> 'n json \<Rightarrow> error + ('m, 'n, 's) object)
    \<Rightarrow> ('m, 'n, 's) object \<Rightarrow> string \<Rightarrow> 'n json \<Rightarrow> error + ('m, 'n, 's) object" where
  "set_prop call_setter newObj key v =
     (case map_of (props newObj) key of
        Some p \<Rightarrow> assign_found call_setter p newObj key v
      | None \<Rightarrow>
          (case inherited (link newObj) key of
             Some p \<Rightarrow> assign_found call_setter p newObj key v
           | None \<Rightarrow>
               if key = ''__proto__'' \<and> reaches_Object_prototype (link newObj)
               then Inr (set_prototype newObj v)
               else Inr (define_own newObj key v)))"

text \<open>
  The loop \<^verbatim>\<open>[...Object.keys(obj)].forEach(...)\<close>: one assignment for each key, in
  order; a setter that throws ends it. Every key comes from \<^verbatim>\<open>obj\<close>, so
  \<^verbatim>\<open>obj[key]\<close> is one of its own properties.
\<close>

fun forEach_key ::
  "('s \<Rightarrow> ('m, 'n, 's) object \<Rightarrow> 'n json \<Rightarrow> error + ('m, 'n, 's) object)
    \<Rightarrow> 'n json \<Rightarrow> ('m, 'n, 's) object \<Rightarrow> string list \<Rightarrow> error + ('m, 'n, 's) object" where
  "forEach_key call_setter obj newObj [] = Inr newObj"
| "forEach_key call_setter obj newObj (key # keys) =
     (case map_of (own_props obj) key of
        None \<Rightarrow> forEach_key call_setter obj newObj keys
      | Some v \<Rightarrow>
          (case set_prop call_setter newObj key v of
             Inl e \<Rightarrow> Inl e
           | Inr newObj' \<Rightarrow> forEach_key call_setter obj newObj' keys))"

text \<open>
  \<^verbatim>\<open>fromJSON\<close>. \<^verbatim>\<open>JSON.parse\<close> belongs to the engine and is a parameter: \<open>None\<close> is
  its \<^verbatim>\<open>SyntaxError\<close>, which \<^verbatim>\<open>fromJSON\<close> does not catch.
\<close>

definition fromJSON ::
  "(string \<Rightarrow> 'n json option)
    \<Rightarrow> ('s \<Rightarrow> ('m, 'n, 's) object \<Rightarrow> 'n json \<Rightarrow> error + ('m, 'n, 's) object)
    \<Rightarrow> ('m, 'n, 's) proto \<Rightarrow> string \<Rightarrow> error + ('m, 'n, 's) object" where
  "fromJSON JSON_parse call_setter proto json =
     (case JSON_parse json of
        None \<Rightarrow> Inl SyntaxError
      | Some obj \<Rightarrow>
          let newObj = \<lparr>link = Given proto, props = []\<rparr>
          in (case Object_keys obj of
                Inl e \<Rightarrow> Inl e
              | Inr keys \<Rightarrow> forEach_key call_setter obj newObj keys))"

text \<open>
  Reading \<^verbatim>\<open>ob.name\<close> finds an own property first, then an inherited one: the result is
  the property read, a value or the getter that the read calls. The built-in properties
  of \<^verbatim>\<open>Object.prototype\<close> are not modelled.
\<close>

definition read :: "('m, 'n, 's) object \<Rightarrow> string \<Rightarrow> ('m, 'n, 's) property option" where
  "read ob name =
     (case map_of (props ob) name of
        Some p \<Rightarrow> Some p
      | None \<Rightarrow> inherited (link ob) name)"

text \<open>
  A key is assignable through \<^verbatim>\<open>proto\<close> when \<^verbatim>\<open>proto\<close> has no property of that name,
  or a writable data property.
\<close>

definition assignable :: "('m, 'n, 's) proto \<Rightarrow> string \<Rightarrow> bool" where
  "assignable proto key =
     (case map_of (pprops proto) key of
        None \<Rightarrow> True
      | Some p \<Rightarrow> (case p of Value old writable \<Rightarrow> writable | Accessor getter setter \<Rightarrow> False))"

text \<open>
  What \<^verbatim>\<open>JSON.parse\<close> returns on the texts of the examples below; on a text that is not
  JSON, such as \<^verbatim>\<open>{radius\<close>, it throws. \<open>sample_setter\<close> is a setter that does nothing.
\<close>

definition sample_parse :: "string \<Rightarrow> int json option" where
  "sample_parse text =
     map_of [(''{\"radius\":10}'', JObj [(''radius'', JNum 10)]),
             (''null'', JNull),
             (''{\"__proto__\":null}'', JObj [(''__proto__'', JNull)]),
             (''{\"getArea\":1}'', JObj [(''getArea'', JNum 1)]),
             (''{\"getArea\":1,\"radius\":10}'',
                JObj [(''getArea'', JNum 1), (''radius'', JNum 10)])] text"

definition sample_setter ::
  "string \<Rightarrow> (string, int, string) object \<Rightarrow> int json
    \<Rightarrow> error + (string, int, string) object" where
  "sample_setter s newObj v = Inr newObj"

section \<open>Properties of the selector builder\<close>

subsection \<open>Reading properties\<close>

lemma blank_fields [simp]:
  "prototype (blank p) = p" "prot (blank p) = None" "el (blank p) = None" "elID (blank p) = None"
  "elClass (blank p) = None" "elAttrs (blank p) = None" "elPseudoClass (blank p) = None"
  "elPseudoElement (blank p) = None"
  by (simp_all add: blank_def)

lemma is_builder_less: "is_builder h a \<Longrightarrow> a < length (objs h)"
  by (simp add: is_builder_def split: if_splits)

lemma is_builder_Selector: "is_builder h a \<Longrightarrow> \<exists>s. a < length (objs h) \<and> objs h ! a = Selector s"
  by (auto simp: is_builder_def split: if_splits jsobj.splits)

lemma extends_refl: "extends h h"
  by (simp add: extends_def)

lemma extends_length: "extends h h' \<Longrightarrow> length (objs h) \<le> length (objs h')"
  unfolding extends_def by auto

lemma extends_nth: "extends h h' \<Longrightarrow> a < length (objs h) \<Longrightarrow> objs h' ! a = objs h ! a"
  unfolding extends_def by (auto simp: nth_append)

lemma extends_trans: "extends h h' \<Longrightarrow> extends h' h'' \<Longrightarrow> extends h h''"
  unfolding extends_def by auto

text \<open>A property read at an object of \<open>h\<close> gives the same value in every store that extends \<open>h\<close>.\<close>

lemma lookup_extends:
  "extends h h' \<Longrightarrow> a < length (objs h) \<Longrightarrow> lookup f h' a = lookup f h a"
proof (induction a rule: less_induct)
  case (less a)
  have le: "a < length (objs h')" using less.prems extends_length by fastforce
  have eq: "objs h' ! a = objs h ! a" using less.prems by (rule extends_nth)
  show ?case
  proof (cases "objs h ! a")
    case (Combined c s1 s2)
    then show ?thesis using le eq less.prems by (simp add: lookup.simps [of f _ a])
  next
    case (Selector s)
    show ?thesis
    proof (cases "f s")
      case (Some v)
      then show ?thesis using Selector le eq less.prems by (simp add: lookup.simps [of f _ a])
    next
      case None
      show ?thesis
      proof (cases "prototype s")
        case None
        then show ?thesis using \<open>f s = None\<close> Selector le eq less.prems
          by (simp add: lookup.simps [of f _ a])
      next
        case (Some p)
        show ?thesis
        proof (cases "p < a")
          case True
          then have "lookup f h' p = lookup f h p" using less by simp
          then show ?thesis using True Some \<open>f s = None\<close> Selector le eq less.prems
            by (simp add: lookup.simps [of f _ a])
        next
          case False
          then show ?thesis using Some \<open>f s = None\<close> Selector le eq less.prems
            by (simp add: lookup.simps [of f _ a])
        qed
      qed
    qed
  qed
qed

lemma extends_Object_create: "Object_create h p = (obj, h1) \<Longrightarrow> extends h h1"
  by (auto simp: Object_create_def extends_def)

text \<open>A fresh object has no data property of its own: it reads what its prototype reads.\<close>

lemma lookup_created:
  assumes "p < length (objs h)" "Object_create h p = (obj, h1)" "f (blank (Some p)) = None"
  shows "lookup f h1 obj = lookup f h p"
proof -
  have o: "obj = length (objs h)" and h1: "h1 = h\<lparr>objs := objs h @ [Selector (blank (Some p))]\<rparr>"
    using assms(2) by (auto simp: Object_create_def)
  have ext: "extends h h1" using assms(2) by (rule extends_Object_create)
  have "lookup f h1 obj = lookup f h1 p"
    using assms(1,3) by (simp add: o h1 lookup.simps [of f _ "length (objs h)"])
  then show ?thesis using lookup_extends [OF ext assms(1)] by simp
qed

subsection \<open>No call changes an object that exists\<close>

lemma extends_apply_part: "apply_part h this p = Inr (obj, h') \<Longrightarrow> extends h h'"
  by (cases p)
    (auto simp: element_def id_sel_def class_sel_def attr_def pseudoClass_def pseudoElement_def
      Object_create_def assign_def new_array_def push_def extends_def Let_def
      split: if_splits option.splits)

lemma extends_combine: "combine h this a c b = Inr (obj, h') \<Longrightarrow> extends h h'"
  by (auto simp: combine_def extends_def Let_def split: if_splits)

lemma extends_exec: "extends h (exec h c)"
  by (cases c) (auto simp: extends_refl split: sum.splits dest: extends_apply_part extends_combine)

lemma extends_foldl: "extends h (foldl exec h cs)"
proof (induction cs arbitrary: h)
  case Nil
  show ?case by (simp add: extends_refl)
next
  case (Cons c cs)
  have "extends h (exec h c)" by (rule extends_exec)
  moreover have "extends (exec h c) (foldl exec (exec h c) cs)" by (rule Cons.IH)
  ultimately show ?case by (simp add: extends_trans [of h "exec h c"])
qed

lemma extends_run: "extends init_heap (run cs)"
  by (simp add: run_def extends_foldl)

subsection \<open>The string of a simple selector\<close>

lemma forEach_concat_eq: "forEach_concat pre xs r = r @ concat (map (\<lambda>s. pre @ s) xs)"
  unfolding forEach_concat_def by (induction xs arbitrary: r) simp_all

lemma part_plain:
  "(case x of None \<Rightarrow> r | Some e \<Rightarrow> if e \<noteq> [] then r @ e else r) =
     r @ (case x of None \<Rightarrow> [] | Some e \<Rightarrow> e)"
  by (cases x) simp_all

lemma part_prefixed:
  "(case x of None \<Rightarrow> r | Some i \<Rightarrow> if i \<noteq> [] then r @ pre @ i else r) =
     r @ (case nonempty x of None \<Rightarrow> [] | Some i \<Rightarrow> pre @ i)"
  by (cases x) (simp_all add: nonempty_def)

lemma part_each:
  "(case x of None \<Rightarrow> r
    | Some k \<Rightarrow> if length (array h k) \<noteq> 0 then forEach_concat pre (array h k) r else r) =
     r @ concat (map (\<lambda>c. pre @ c) (sequence h x))"
  by (cases x) (simp_all add: sequence_def forEach_concat_eq)

lemma part_first:
  "(case x of None \<Rightarrow> r
    | Some k \<Rightarrow> if length (array h k) \<noteq> 0 then r @ ''['' @ hd (array h k) @ '']'' else r) =
     r @ (case sequence h x of [] \<Rightarrow> [] | a # rest \<Rightarrow> ''['' @ a @ '']'')"
  by (cases x) (simp_all add: sequence_def split: list.splits)

text \<open>
  What \<^verbatim>\<open>stringify\<close> computes on a selector, with the truthiness tests of the code: an
  empty id or pseudo-element is skipped like an absent one.
\<close>

lemma stringify_selector:
  assumes "is_builder h this"
  shows "stringify h this =
    stringify_spec (lookup el h this) (nonempty (lookup elID h this))
      (sequence h (lookup elClass h this)) (sequence h (lookup elAttrs h this))
      (sequence h (lookup elPseudoClass h this)) (nonempty (lookup elPseudoElement h this))"
proof -
  obtain s where s: "this < length (objs h)" "objs h ! this = Selector s"
    using assms is_builder_Selector by blast
  have "stringify h this =
    (let r0 = [];
         r1 = r0 @ (case lookup el h this of None \<Rightarrow> [] | Some e \<Rightarrow> e);
         r2 = r1 @ (case nonempty (lookup elID h this) of None \<Rightarrow> [] | Some i \<Rightarrow> ''#'' @ i);
         r3 = r2 @ concat (map (\<lambda>c. ''.'' @ c) (sequence h (lookup elClass h this)));
         r4 = r3 @ (case sequence h (lookup elAttrs h this) of [] \<Rightarrow> []
                    | a # rest \<Rightarrow> ''['' @ a @ '']'');
         r5 = r4 @ concat (map (\<lambda>c. '':'' @ c) (sequence h (lookup elPseudoClass h this)));
         r6 = r5 @ (case nonempty (lookup elPseudoElement h this) of None \<Rightarrow> []
                    | Some p \<Rightarrow> ''::'' @ p)
     in r6)"
    unfolding stringify_def using s
    by (simp only: part_plain part_prefixed part_each part_first if_True jsobj.case)
  then show ?thesis
    by (simp only: Let_def stringify_spec_def append_Nil append_assoc)
qed

subsection \<open>The exported instance\<close>

lemma lookup_builder_init:
  "lookup f init_heap cssSelectorBuilder = f ((blank None)\<lparr>prot := Some 1\<rparr>)"
  by (simp add: init_heap_def cssSelectorBuilder_def lookup.simps [of _ _ 0] split: option.splits)

lemma lookup_builder_run:
  "lookup f (run cs) cssSelectorBuilder = f ((blank None)\<lparr>prot := Some 1\<rparr>)"
proof -
  have len: "cssSelectorBuilder < length (objs init_heap)"
    by (simp add: init_heap_def cssSelectorBuilder_def)
  have "lookup f (run cs) cssSelectorBuilder = lookup f init_heap cssSelectorBuilder"
    using extends_run len by (rule lookup_extends)
  then show ?thesis by (simp add: lookup_builder_init)
qed

lemma is_builder_run: "is_builder (run cs) cssSelectorBuilder"
proof -
  have len: "cssSelectorBuilder < length (objs init_heap)"
    by (simp add: init_heap_def cssSelectorBuilder_def)
  have "objs (run cs) ! cssSelectorBuilder = objs init_heap ! cssSelectorBuilder"
    using extends_run len by (rule extends_nth)
  moreover have "cssSelectorBuilder < length (objs (run cs))"
    using extends_length [OF extends_run, of cs] len by simp
  ultimately show ?thesis
    by (simp add: is_builder_def init_heap_def cssSelectorBuilder_def)
qed

text \<open>
  C10. After any sequence of \<^verbatim>\<open>element\<close>, \<^verbatim>\<open>id\<close>, \<^verbatim>\<open>class\<close>, \<^verbatim>\<open>attr\<close>,
  \<^verbatim>\<open>pseudoClass\<close>, \<^verbatim>\<open>pseudoElement\<close> and \<^verbatim>\<open>combine\<close> calls, on any receivers and
  arguments of the store and whether they throw or not, the exported
  \<^verbatim>\<open>cssSelectorBuilder\<close> has none of the six selector fields and its \<^verbatim>\<open>stringify()\<close>
  is the empty string.
\<close>

theorem builder_stays_empty:
  "lookup el (run cs) cssSelectorBuilder = None \<and>
   lookup elID (run cs) cssSelectorBuilder = None \<and>
   lookup elClass (run cs) cssSelectorBuilder = None \<and>
   lookup elAttrs (run cs) cssSelectorBuilder = None \<and>
   lookup elPseudoClass (run cs) cssSelectorBuilder = None \<and>
   lookup elPseudoElement (run cs) cssSelectorBuilder = None \<and>
   stringify (run cs) cssSelectorBuilder = []"
  by (simp add: stringify_selector [OF is_builder_run] lookup_builder_run
      stringify_spec_def sequence_def nonempty_def)

subsection \<open>Every reachable store is well formed\<close>

lemma lookup_own: "lookup f h a = Some v \<Longrightarrow> v \<in> own f h"
proof (induction a rule: less_induct)
  case (less a)
  show ?case
  proof (cases "a < length (objs h)")
    case False
    then show ?thesis using less.prems by (simp add: lookup.simps [of f h a])
  next
    case True
    show ?thesis
    proof (cases "objs h ! a")
      case (Combined c s1 s2)
      then show ?thesis using True less.prems by (simp add: lookup.simps [of f h a])
    next
      case (Selector s)
      have mem: "Selector s \<in> set (objs h)" using True Selector by (metis nth_mem)
      show ?thesis
      proof (cases "f s")
        case (Some w)
        then have "w = v" using True Selector less.prems by (simp add: lookup.simps [of f h a])
        then show ?thesis using Some mem by (auto simp: own_def)
      next
        case None
        then obtain p where p: "prototype s = Some p" "p < a" "lookup f h p = Some v"
          using True Selector less.prems
          by (auto simp: lookup.simps [of f h a] split: option.splits if_splits)
        then show ?thesis using less.IH by blast
      qed
    qed
  qed
qed

lemma own_append:
  "objs h' = objs h @ [Selector s] \<Longrightarrow>
     own f h' = own f h \<union> (case f s of None \<Rightarrow> {} | Some v \<Rightarrow> {v})"
  by (auto simp: own_def split: option.splits)

lemma own_append_Combined: "objs h' = objs h @ [Combined c a b] \<Longrightarrow> own f h' = own f h"
  by (auto simp: own_def)

lemma class_sel_result:
  assumes "class_sel h this v = Inr (obj, h')"
  shows "obj = length (objs h) \<and>
    (case lookup elClass h this of
       Some k \<Rightarrow> h' = h\<lparr>objs := objs h @ [Selector (blank (Some this))],
                        arrs := (arrs h)[k := arrs h ! k @ [v]]\<rparr>
     | None \<Rightarrow> h' = h\<lparr>objs := objs h @ [Selector ((blank (Some this))\<lparr>elClass := Some (length (arrs h))\<rparr>)],
                      arrs := arrs h @ [[v]]\<rparr>)"
proof -
  have b: "this < length (objs h)"
    using assms by (auto simp: class_sel_def is_builder_less split: if_splits)
  obtain o1 h1 where c: "Object_create h this = (o1, h1)" by (cases "Object_create h this")
  have lk: "lookup elClass h1 o1 = lookup elClass h this" using b c by (rule lookup_created) simp
  show ?thesis
    using assms c lk
    by (auto simp: class_sel_def Object_create_def new_array_def push_def assign_def
        split: if_splits option.splits)
qed

lemma attr_result:
  assumes "attr h this v = Inr (obj, h')"
  shows "obj = length (objs h) \<and>
    (case lookup elAttrs h this of
       Some k \<Rightarrow> h' = h\<lparr>objs := objs h @ [Selector (blank (Some this))],
                        arrs := (arrs h)[k := arrs h ! k @ [v]]\<rparr>
     | None \<Rightarrow> h' = h\<lparr>objs := objs h @ [Selector ((blank (Some this))\<lparr>elAttrs := Some (length (arrs h))\<rparr>)],
                      arrs := arrs h @ [[v]]\<rparr>)"
proof -
  have b: "this < length (objs h)"
    using assms by (auto simp: attr_def is_builder_less split: if_splits)
  obtain o1 h1 where c: "Object_create h this = (o1, h1)" by (cases "Object_create h this")
  have lk: "lookup elAttrs h1 o1 = lookup elAttrs h this" using b c by (rule lookup_created) simp
  show ?thesis
    using assms c lk
    by (auto simp: attr_def Object_create_def new_array_def push_def assign_def
        split: if_splits option.splits)
qed

lemma pseudoClass_result:
  assumes "pseudoClass h this v = Inr (obj, h')"
  shows "obj = length (objs h) \<and>
    (case lookup elPseudoClass h this of
       Some k \<Rightarrow> h' = h\<lparr>objs := objs h @ [Selector (blank (Some this))],
                        arrs := (arrs h)[k := arrs h ! k @ [v]]\<rparr>
     | None \<Rightarrow> h' = h\<lparr>objs := objs h @ [Selector ((blank (Some this))\<lparr>elPseudoClass := Some (length (arrs h))\<rparr>)],
                      arrs := arrs h @ [[v]]\<rparr>)"
proof -
  have b: "this < length (objs h)"
    using assms by (auto simp: pseudoClass_def is_builder_less split: if_splits)
  obtain o1 h1 where c: "Object_create h this = (o1, h1)" by (cases "Object_create h this")
  have lk: "lookup elPseudoClass h1 o1 = lookup elPseudoClass h this"
    using b c by (rule lookup_created) simp
  show ?thesis
    using assms c lk
    by (auto simp: pseudoClass_def Object_create_def new_array_def push_def assign_def
        split: if_splits option.splits)
qed

lemma element_result:
  assumes "element h this v = Inr (obj, h')"
  shows "\<exists>p. lookup prot h this = Some p \<and> obj = length (objs h) \<and>
           h' = h\<lparr>objs := objs h @ [Selector ((blank (Some p))\<lparr>el := Some v\<rparr>)]\<rparr>"
  using assms
  by (auto simp: element_def Object_create_def assign_def split: if_splits option.splits)

lemma id_sel_result:
  assumes "id_sel h this v = Inr (obj, h')"
  shows "obj = length (objs h) \<and>
           h' = h\<lparr>objs := objs h @ [Selector ((blank (Some this))\<lparr>elID := Some v\<rparr>)]\<rparr>"
  using assms
  by (auto simp: id_sel_def Object_create_def assign_def split: if_splits)

lemma pseudoElement_result:
  assumes "pseudoElement h this v = Inr (obj, h')"
  shows "obj = length (objs h) \<and>
           h' = h\<lparr>objs := objs h @ [Selector ((blank (Some this))\<lparr>elPseudoElement := Some v\<rparr>)]\<rparr>"
  using assms
  by (auto simp: pseudoElement_def Object_create_def assign_def split: if_splits)

lemma combine_result:
  assumes "combine h this a c b = Inr (obj, h')"
  shows "obj = length (objs h) \<and>
     h' = h\<lparr>objs := objs h @ [Combined (stringify h a @ '' '' @ c @ '' '' @ stringify h b) a b]\<rparr>"
  using assms by (auto simp: combine_def Let_def split: if_splits)

text \<open>The shapes a store can take after a call, each well formed when the store before was.\<close>

lemma wf_scalar:
  assumes "wf h" "elClass s = None" "elAttrs s = None" "elPseudoClass s = None"
  shows "wf (h\<lparr>objs := objs h @ [Selector s]\<rparr>)"
proof -
  let ?h' = "h\<lparr>objs := objs h @ [Selector s]\<rparr>"
  have o: "objs ?h' = objs h @ [Selector s]" by simp
  show ?thesis
    using assms by (simp add: wf_def own_append [OF o])
qed

lemma wf_combined:
  assumes "wf h"
  shows "wf (h\<lparr>objs := objs h @ [Combined c a b]\<rparr>)"
proof -
  let ?h' = "h\<lparr>objs := objs h @ [Combined c a b]\<rparr>"
  have o: "objs ?h' = objs h @ [Combined c a b]" by simp
  show ?thesis
    using assms by (simp add: wf_def own_append_Combined [OF o])
qed

lemma wf_push:
  assumes "wf h"
  shows "wf (h\<lparr>objs := objs h @ [Selector (blank p)], arrs := (arrs h)[k := arrs h ! k @ [v]]\<rparr>)"
proof -
  let ?h' = "h\<lparr>objs := objs h @ [Selector (blank p)], arrs := (arrs h)[k := arrs h ! k @ [v]]\<rparr>"
  have o: "objs ?h' = objs h @ [Selector (blank p)]" by simp
  have ne: "[] \<notin> set ((arrs h)[k := arrs h ! k @ [v]])"
    using assms set_update_subset_insert [of "arrs h" k "arrs h ! k @ [v]"]
    by (auto simp: wf_def)
  show ?thesis
    using assms ne by (simp add: wf_def own_append [OF o])
qed

lemma wf_new_class:
  assumes "wf h"
  shows "wf (h\<lparr>objs := objs h @ [Selector ((blank p)\<lparr>elClass := Some (length (arrs h))\<rparr>)],
               arrs := arrs h @ [[v]]\<rparr>)"
proof -
  let ?s = "(blank p)\<lparr>elClass := Some (length (arrs h))\<rparr>"
  let ?h' = "h\<lparr>objs := objs h @ [Selector ?s], arrs := arrs h @ [[v]]\<rparr>"
  have o: "objs ?h' = objs h @ [Selector ?s]" by simp
  show ?thesis
    using assms by (auto simp: wf_def own_append [OF o])
qed

lemma wf_new_attr:
  assumes "wf h"
  shows "wf (h\<lparr>objs := objs h @ [Selector ((blank p)\<lparr>elAttrs := Some (length (arrs h))\<rparr>)],
               arrs := arrs h @ [[v]]\<rparr>)"
proof -
  let ?s = "(blank p)\<lparr>elAttrs := Some (length (arrs h))\<rparr>"
  let ?h' = "h\<lparr>objs := objs h @ [Selector ?s], arrs := arrs h @ [[v]]\<rparr>"
  have o: "objs ?h' = objs h @ [Selector ?s]" by simp
  show ?thesis
    using assms by (auto simp: wf_def own_append [OF o])
qed

lemma wf_new_pseudoClass:
  assumes "wf h"
  shows "wf (h\<lparr>objs := objs h @ [Selector ((blank p)\<lparr>elPseudoClass := Some (length (arrs h))\<rparr>)],
               arrs := arrs h @ [[v]]\<rparr>)"
proof -
  let ?s = "(blank p)\<lparr>elPseudoClass := Some (length (arrs h))\<rparr>"
  let ?h' = "h\<lparr>objs := objs h @ [Selector ?s], arrs := arrs h @ [[v]]\<rparr>"
  have o: "objs ?h' = objs h @ [Selector ?s]" by simp
  show ?thesis
    using assms by (auto simp: wf_def own_append [OF o])
qed

lemma wf_apply_part:
  assumes "wf h" "apply_part h this p = Inr (obj, h')"
  shows "wf h'"
proof (cases p)
  case (PElement v)
  then show ?thesis using assms element_result [of h this v obj h'] by (auto intro!: wf_scalar)
next
  case (PId v)
  then show ?thesis using assms id_sel_result [of h this v obj h'] by (auto intro!: wf_scalar)
next
  case (PClass v)
  then show ?thesis using assms class_sel_result [of h this v obj h']
    by (auto split: option.splits intro: wf_push wf_new_class)
next
  case (PAttr v)
  then show ?thesis using assms attr_result [of h this v obj h']
    by (auto split: option.splits intro: wf_push wf_new_attr)
next
  case (PPseudoClass v)
  then show ?thesis using assms pseudoClass_result [of h this v obj h']
    by (auto split: option.splits intro: wf_push wf_new_pseudoClass)
next
  case (PPseudoElement v)
  then show ?thesis using assms pseudoElement_result [of h this v obj h']
    by (auto intro!: wf_scalar)
qed

lemma wf_exec: "wf h \<Longrightarrow> wf (exec h c)"
  by (cases c) (auto split: sum.splits dest: wf_apply_part combine_result intro: wf_combined)

lemma wf_foldl: "wf h \<Longrightarrow> wf (foldl exec h cs)"
  by (induction cs arbitrary: h) (simp_all add: wf_exec)

lemma wf_init: "wf init_heap"
  by (auto simp: wf_def own_def init_heap_def)

lemma wf_run: "wf (run cs)"
  by (simp add: run_def wf_foldl wf_init)

subsection \<open>In every reachable store a prototype is older than its object\<close>

lemma older_append:
  assumes "older h" "prot s = None" "prototype s = Some p" "p < length (objs h)"
  shows "older (h\<lparr>objs := objs h @ [Selector s], arrs := xs\<rparr>)"
proof -
  let ?h' = "h\<lparr>objs := objs h @ [Selector s], arrs := xs\<rparr>"
  have o: "objs ?h' = objs h @ [Selector s]" by simp
  have "own prot ?h' \<subseteq> {1}" using assms(1,2) by (simp add: own_append [OF o] older_def)
  moreover have "2 \<le> length (objs ?h')" using assms(1) by (simp add: older_def)
  moreover have "p' < a"
    if "a < length (objs ?h')" "objs ?h' ! a = Selector s'" "prototype s' = Some p'" for a s' p'
  proof (cases "a < length (objs h)")
    case True
    then show ?thesis using that assms(1) by (auto simp: older_def nth_append)
  next
    case False
    then have "a = length (objs h)" using that(1) by simp
    then show ?thesis using that assms(3,4) by simp
  qed
  ultimately show ?thesis unfolding older_def by blast
qed

lemma older_append_Combined:
  assumes "older h"
  shows "older (h\<lparr>objs := objs h @ [Combined c a b]\<rparr>)"
proof -
  let ?h' = "h\<lparr>objs := objs h @ [Combined c a b]\<rparr>"
  have o: "objs ?h' = objs h @ [Combined c a b]" by simp
  have "own prot ?h' \<subseteq> {1}" using assms by (simp add: own_append_Combined [OF o] older_def)
  moreover have "2 \<le> length (objs ?h')" using assms by (simp add: older_def)
  moreover have "p' < a'"
    if "a' < length (objs ?h')" "objs ?h' ! a' = Selector s'" "prototype s' = Some p'" for a' s' p'
  proof (cases "a' < length (objs h)")
    case True
    then show ?thesis using that assms by (auto simp: older_def nth_append)
  next
    case False
    then have "a' = length (objs h)" using that(1) by simp
    then show ?thesis using that by simp
  qed
  ultimately show ?thesis unfolding older_def by blast
qed

lemma older_apply_part:
  assumes "older h" "apply_part h this p = Inr (obj, h')"
  shows "older h'"
proof -
  have len: "2 \<le> length (objs h)" using assms(1) by (simp add: older_def)
  have tl: "this < length (objs h)"
    using assms(2)
    by (cases p)
      (auto simp: element_def id_sel_def class_sel_def attr_def pseudoClass_def pseudoElement_def
        is_builder_less split: if_splits)
  show ?thesis
  proof (cases p)
    case (PElement v)
    then obtain q where q: "lookup prot h this = Some q"
      and h': "h' = h\<lparr>objs := objs h @ [Selector ((blank (Some q))\<lparr>el := Some v\<rparr>)]\<rparr>"
      using assms(2) element_result [of h this v obj h'] by auto
    have "q \<in> own prot h" using q by (rule lookup_own)
    then have "q < length (objs h)" using assms(1) len by (auto simp: older_def)
    then show ?thesis
      using older_append [OF assms(1), of "(blank (Some q))\<lparr>el := Some v\<rparr>" q "arrs h"]
      by (simp add: h')
  next
    case (PId v)
    then have h': "h' = h\<lparr>objs := objs h @ [Selector ((blank (Some this))\<lparr>elID := Some v\<rparr>)]\<rparr>"
      using assms(2) id_sel_result [of h this v obj h'] by auto
    show ?thesis
      using older_append [OF assms(1), of "(blank (Some this))\<lparr>elID := Some v\<rparr>" this "arrs h"] tl
      by (simp add: h')
  next
    case (PClass v)
    then show ?thesis
      using assms class_sel_result [of h this v obj h'] tl
        older_append [OF assms(1), of "blank (Some this)" this]
        older_append [OF assms(1), of "(blank (Some this))\<lparr>elClass := Some (length (arrs h))\<rparr>" this]
      by (auto split: option.splits)
  next
    case (PAttr v)
    then show ?thesis
      using assms attr_result [of h this v obj h'] tl
        older_append [OF assms(1), of "blank (Some this)" this]
        older_append [OF assms(1), of "(blank (Some this))\<lparr>elAttrs := Some (length (arrs h))\<rparr>" this]
      by (auto split: option.splits)
  next
    case (PPseudoClass v)
    then show ?thesis
      using assms pseudoClass_result [of h this v obj h'] tl
        older_append [OF assms(1), of "blank (Some this)" this]
        older_append [OF assms(1), of "(blank (Some this))\<lparr>elPseudoClass := Some (length (arrs h))\<rparr>" this]
      by (auto split: option.splits)
  next
    case (PPseudoElement v)
    then have h': "h' = h\<lparr>objs := objs h @ [Selector ((blank (Some this))\<lparr>elPseudoElement := Some v\<rparr>)]\<rparr>"
      using assms(2) pseudoElement_result [of h this v obj h'] by auto
    show ?thesis
      using older_append [OF assms(1), of "(blank (Some this))\<lparr>elPseudoElement := Some v\<rparr>" this "arrs h"] tl
      by (simp add: h')
  qed
qed

lemma older_exec: "older h \<Longrightarrow> older (exec h c)"
  by (cases c)
    (auto split: sum.splits dest: older_apply_part combine_result intro: older_append_Combined)

lemma older_foldl: "older h \<Longrightarrow> older (foldl exec h cs)"
  by (induction cs arbitrary: h) (simp_all add: older_exec)

lemma older_init: "older init_heap"
  by (auto simp: older_def own_def init_heap_def nth_Cons split: nat.splits)

lemma older_run: "older (run cs)"
  by (simp add: run_def older_foldl older_init)

text \<open>In a reachable store the walk is the plain walk along the prototype chain.\<close>

lemma lookup_run:
  assumes "a < length (objs (run cs))" "objs (run cs) ! a = Selector s"
  shows "lookup f (run cs) a =
     (case f s of
        Some v \<Rightarrow> Some v
      | None \<Rightarrow> (case prototype s of None \<Rightarrow> None | Some p \<Rightarrow> lookup f (run cs) p))"
proof -
  have "\<And>p. prototype s = Some p \<Longrightarrow> p < a"
    using older_run [of cs] assms unfolding older_def by blast
  then show ?thesis
    using assms by (simp add: lookup.simps [of f "run cs" a] split: option.splits)
qed

subsection \<open>Arrays after a call\<close>

lemma array_push:
  "array (h\<lparr>objs := os, arrs := (arrs h)[k := arrs h ! k @ [v]]\<rparr>) j =
     (if j = k \<and> k < length (arrs h) then array h k @ [v] else array h j)"
  by (simp add: array_def)

lemma is_builder_extends: "extends h h' \<Longrightarrow> is_builder h a \<Longrightarrow> is_builder h' a"
  using extends_length [of h h'] extends_nth [of h h' a]
  by (auto simp: is_builder_def split: if_splits)

lemma lookup_new_object:
  assumes "p < length (objs h)" "prototype s = Some p" "objs h' = objs h @ [Selector s]"
  shows "lookup f h' (length (objs h)) = (case f s of Some v \<Rightarrow> Some v | None \<Rightarrow> lookup f h p)"
proof -
  have ext: "extends h h'" using assms(3) by (auto simp: extends_def)
  have "lookup f h' p = lookup f h p" using ext assms(1) by (rule lookup_extends)
  then show ?thesis
    using assms by (simp add: lookup.simps [of f h' "length (objs h)"] split: option.splits)
qed

lemma wf_array_nonempty:
  assumes "wf h" "lookup f h s = Some k" "f = elClass \<or> f = elAttrs \<or> f = elPseudoClass"
  shows "k < length (arrs h) \<and> array h k \<noteq> []"
proof -
  have "k \<in> own f h" using assms(2) by (rule lookup_own)
  then have k: "k < length (arrs h)" using assms(1,3) by (auto simp: wf_def)
  then have "arrs h ! k \<in> set (arrs h)" by simp
  then have "arrs h ! k \<noteq> []" using assms(1) by (auto simp: wf_def)
  then show ?thesis using k by (simp add: array_def)
qed

subsection \<open>The claims on the selector builder\<close>

text \<open>
  C6. In a store reached by any sequence of calls, let \<open>s\<close> be a selector whose attribute
  sequence is not empty and on which \<^verbatim>\<open>attr(v)\<close> succeeds. The selector returned
  stringifies to what \<open>s\<close> stringified to before the call, and so does \<open>s\<close> after the
  call: \<^verbatim>\<open>stringify\<close> shows the first attribute only, and \<^verbatim>\<open>push\<close> appends behind it.
\<close>

theorem attr_again_same_string:
  assumes "attr (run cs) s v = Inr (obj, h')"
    and "sequence (run cs) (lookup elAttrs (run cs) s) \<noteq> []"
  shows "stringify h' obj = stringify (run cs) s \<and> stringify h' s = stringify (run cs) s"
proof -
  let ?h = "run cs"
  have wf: "wf ?h" by (rule wf_run)
  obtain k where k: "lookup elAttrs ?h s = Some k"
    using assms(2) by (cases "lookup elAttrs ?h s") (auto simp: sequence_def)
  have kb: "k < length (arrs ?h)" and kne: "array ?h k \<noteq> []"
    using wf_array_nonempty [OF wf k] by simp_all
  have b: "is_builder ?h s" and pc: "lookup elPseudoClass ?h s = None"
    using assms(1) by (auto simp: attr_def truthy_ref_def split: if_splits option.splits)
  have sl: "s < length (objs ?h)" using b by (rule is_builder_less)
  have obj: "obj = length (objs ?h)"
    and h': "h' = ?h\<lparr>objs := objs ?h @ [Selector (blank (Some s))],
                     arrs := (arrs ?h)[k := arrs ?h ! k @ [v]]\<rparr>"
    using attr_result [OF assms(1)] k by simp_all
  have o: "objs h' = objs ?h @ [Selector (blank (Some s))]" by (simp add: h')
  have ext: "extends ?h h'" using o by (auto simp: extends_def)
  have bs: "is_builder h' s" using ext b by (rule is_builder_extends)
  have bo: "is_builder h' obj" by (simp add: is_builder_def o obj)
  note ls = lookup_extends [OF ext sl]
  note lo = lookup_new_object [OF sl blank_fields(1) o, folded obj]
  have cls: "sequence h' (lookup elClass ?h s) = sequence ?h (lookup elClass ?h s)"
  proof (cases "lookup elClass ?h s")
    case None
    then show ?thesis by (simp add: sequence_def)
  next
    case (Some kc)
    have "kc \<in> own elClass ?h" using Some by (rule lookup_own)
    moreover have "k \<in> own elAttrs ?h" using k by (rule lookup_own)
    ultimately have "kc \<noteq> k" using wf by (auto simp: wf_def)
    then show ?thesis using Some by (simp add: sequence_def h' array_push)
  qed
  have att: "array h' k = array ?h k @ [v]"
    using kb by (simp add: h' array_push)
  have first: "(case array h' k of [] \<Rightarrow> [] | a # rest \<Rightarrow> ''['' @ a @ '']'') =
               (case array ?h k of [] \<Rightarrow> [] | a # rest \<Rightarrow> ''['' @ a @ '']'')"
    using kne by (cases "array ?h k") (simp_all add: att)
  have "stringify h' obj = stringify ?h s"
    using first
    by (simp add: stringify_selector [OF bo] stringify_selector [OF b] lo k pc cls
        stringify_spec_def sequence_def [of _ None] sequence_def [of _ "Some k"])
  moreover have "stringify h' s = stringify ?h s"
    using first
    by (simp add: stringify_selector [OF bs] stringify_selector [OF b] ls k pc cls
        stringify_spec_def sequence_def [of _ None] sequence_def [of _ "Some k"])
  ultimately show ?thesis by simp
qed

theorem attr_again_same_string_witness:
  "attr (run [Call 0 (PElement ''a''), Call 2 (PAttr ''x'')]) 3 ''y'' =
     Inr (4, run [Call 0 (PElement ''a''), Call 2 (PAttr ''x''), Call 3 (PAttr ''y'')]) \<and>
   sequence (run [Call 0 (PElement ''a''), Call 2 (PAttr ''x'')])
     (lookup elAttrs (run [Call 0 (PElement ''a''), Call 2 (PAttr ''x'')]) 3) = [''x''] \<and>
   stringify (run [Call 0 (PElement ''a''), Call 2 (PAttr ''x''), Call 3 (PAttr ''y'')]) 4 = ''a[x]'' \<and>
   stringify (run [Call 0 (PElement ''a''), Call 2 (PAttr ''x''), Call 3 (PAttr ''y'')]) 3 = ''a[x]''"
proof -
  let ?cs = "[Call 0 (PElement ''a''), Call 2 (PAttr ''x'')]"
  let ?H' = "run [Call 0 (PElement ''a''), Call 2 (PAttr ''x''), Call 3 (PAttr ''y'')]"
  have a: "attr (run ?cs) 3 ''y'' = Inr (4, ?H')" by code_simp
  have q: "sequence (run ?cs) (lookup elAttrs (run ?cs) 3) = [''x'']" by code_simp
  have s: "stringify (run ?cs) 3 = ''a[x]''" by code_simp
  have ne: "sequence (run ?cs) (lookup elAttrs (run ?cs) 3) \<noteq> []" by (simp add: q)
  show ?thesis
    using attr_again_same_string [OF a ne] a q s by simp
qed

text \<open>
  C1 says that a builder call leaves its receiver unchanged. The code shares the array of
  classes between the receiver and the object returned: with
  \<^verbatim>\<open>s = cssSelectorBuilder.class('a')\<close>, the string of \<open>s\<close> is \<^verbatim>\<open>.a\<close> before the call
  \<^verbatim>\<open>s.class('b')\<close> and \<^verbatim>\<open>.a.b\<close> after it.
\<close>

theorem class_changes_receiver:
  "class_sel init_heap cssSelectorBuilder ''a'' = Inr (2, run [Call cssSelectorBuilder (PClass ''a'')]) \<and>
   stringify (run [Call cssSelectorBuilder (PClass ''a'')]) 2 = ''.a'' \<and>
   class_sel (run [Call cssSelectorBuilder (PClass ''a'')]) 2 ''b'' =
     Inr (3, run [Call cssSelectorBuilder (PClass ''a''), Call 2 (PClass ''b'')]) \<and>
   stringify (run [Call cssSelectorBuilder (PClass ''a''), Call 2 (PClass ''b'')]) 2 = ''.a.b''"
  by code_simp

text \<open>
  C2, amended. On every simple selector whose id and pseudo-element are not the empty
  string, \<^verbatim>\<open>stringify()\<close> is the concatenation the specification describes, taken on
  the element, the id, the classes, the attributes, the pseudo-classes and the
  pseudo-element that the selector reads (an empty id or pseudo-element is skipped by the
  code, where the specification's words give \<^verbatim>\<open>#\<close> or \<^verbatim>\<open>::\<close>). The two examples of
  the specification hold.
\<close>

theorem stringify_fixed_order:
  "(is_builder h s \<and> lookup elID h s \<noteq> Some [] \<and> lookup elPseudoElement h s \<noteq> Some [] \<longrightarrow>
      stringify h s =
        stringify_spec (lookup el h s) (lookup elID h s)
          (sequence h (lookup elClass h s)) (sequence h (lookup elAttrs h s))
          (sequence h (lookup elPseudoClass h s)) (lookup elPseudoElement h s)) \<and>
   stringify_chain [PId ''main'', PClass ''container'', PClass ''editable''] =
     Inr ''#main.container.editable'' \<and>
   stringify_chain [PElement ''a'', PAttr ''href$=\".png\"'', PPseudoClass ''focus''] =
     Inr ''a[href$=\".png\"]:focus''"
proof -
  have n: "\<And>x. x \<noteq> Some [] \<Longrightarrow> nonempty x = x"
    by (auto simp: nonempty_def split: option.splits)
  have "stringify_chain [PId ''main'', PClass ''container'', PClass ''editable''] =
     Inr ''#main.container.editable''" by code_simp
  moreover have "stringify_chain [PElement ''a'', PAttr ''href$=\".png\"'', PPseudoClass ''focus''] =
     Inr ''a[href$=\".png\"]:focus''" by code_simp
  ultimately show ?thesis by (simp add: stringify_selector n)
qed

theorem stringify_fixed_order_witness:
  "is_builder (run [Call 0 (PElement ''li''), Call 2 (PId ''x''), Call 3 (PPseudoElement ''after'')]) 4 \<and>
   stringify (run [Call 0 (PElement ''li''), Call 2 (PId ''x''), Call 3 (PPseudoElement ''after'')]) 4 =
     stringify_spec (Some ''li'') (Some ''x'') [] [] [] (Some ''after'')"
proof -
  let ?H = "run [Call 0 (PElement ''li''), Call 2 (PId ''x''), Call 3 (PPseudoElement ''after'')]"
  have b: "is_builder ?H 4" by code_simp
  have l: "lookup el ?H 4 = Some ''li''" "lookup elID ?H 4 = Some ''x''"
    "lookup elPseudoElement ?H 4 = Some ''after''"
    "sequence ?H (lookup elClass ?H 4) = []" "sequence ?H (lookup elAttrs ?H 4) = []"
    "sequence ?H (lookup elPseudoClass ?H 4) = []"
    by code_simp+
  show ?thesis
    using stringify_fixed_order [of ?H 4] b l by simp
qed

text \<open>
  C2 as stated fails on \<^verbatim>\<open>cssSelectorBuilder.id('')\<close>: its id is set, to the empty
  string; the code returns the empty string and the specification's concatenation is
  \<^verbatim>\<open>#\<close>.
\<close>

theorem empty_id_counterexample:
  "is_builder (run [Call cssSelectorBuilder (PId [])]) 2 \<and>
   lookup elID (run [Call cssSelectorBuilder (PId [])]) 2 = Some [] \<and>
   stringify (run [Call cssSelectorBuilder (PId [])]) 2 = [] \<and>
   stringify_spec (lookup el (run [Call cssSelectorBuilder (PId [])]) 2)
     (lookup elID (run [Call cssSelectorBuilder (PId [])]) 2)
     (sequence (run [Call cssSelectorBuilder (PId [])]) (lookup elClass (run [Call cssSelectorBuilder (PId [])]) 2))
     (sequence (run [Call cssSelectorBuilder (PId [])]) (lookup elAttrs (run [Call cssSelectorBuilder (PId [])]) 2))
     (sequence (run [Call cssSelectorBuilder (PId [])]) (lookup elPseudoClass (run [Call cssSelectorBuilder (PId [])]) 2))
     (lookup elPseudoElement (run [Call cssSelectorBuilder (PId [])]) 2) = ''#''"
  by code_simp

text \<open>
  C3, amended. A field counts as set when the code's test sees it: an element, id or
  pseudo-element that is a non-empty string, a class, attribute or pseudo-class array that
  exists. On a selector, \<^verbatim>\<open>element(v)\<close> fails if any of id, class, attribute,
  pseudo-class or pseudo-element is set, with OrderError unless the element is set too
  (then DuplicateError, which is tested first); \<^verbatim>\<open>id(v)\<close> fails if any of class,
  attribute, pseudo-class or pseudo-element is set, with OrderError unless the id is set
  too (then DuplicateError); \<^verbatim>\<open>class(v)\<close> fails with OrderError if attribute,
  pseudo-class or pseudo-element is set; \<^verbatim>\<open>attr(v)\<close> fails with OrderError if
  pseudo-class or pseudo-element is set; \<^verbatim>\<open>pseudoClass(v)\<close> fails with OrderError if
  the pseudo-element is set. \<^verbatim>\<open>.class('x').element('a')\<close> fails with OrderError.
\<close>

theorem later_field_blocks_earlier:
  "(is_builder h s \<longrightarrow>
     (truthy_str (lookup elID h s) \<or> truthy_ref (lookup elClass h s) \<or>
      truthy_ref (lookup elAttrs h s) \<or> truthy_ref (lookup elPseudoClass h s) \<or>
      truthy_str (lookup elPseudoElement h s) \<longrightarrow>
        element h s v =
          Inl (if truthy_str (lookup el h s) then DuplicateError else OrderError)) \<and>
     (truthy_ref (lookup elClass h s) \<or> truthy_ref (lookup elAttrs h s) \<or>
      truthy_ref (lookup elPseudoClass h s) \<or> truthy_str (lookup elPseudoElement h s) \<longrightarrow>
        id_sel h s v =
          Inl (if truthy_str (lookup elID h s) then DuplicateError else OrderError)) \<and>
     (truthy_ref (lookup elAttrs h s) \<or> truthy_ref (lookup elPseudoClass h s) \<or>
      truthy_str (lookup elPseudoElement h s) \<longrightarrow>
        class_sel h s v = Inl OrderError) \<and>
     (truthy_ref (lookup elPseudoClass h s) \<or> truthy_str (lookup elPseudoElement h s) \<longrightarrow>
        attr h s v = Inl OrderError) \<and>
     (truthy_str (lookup elPseudoElement h s) \<longrightarrow> pseudoClass h s v = Inl OrderError)) \<and>
   chain init_heap cssSelectorBuilder [PClass ''x'', PElement ''a''] = Inl OrderError"
proof -
  have "chain init_heap cssSelectorBuilder [PClass ''x'', PElement ''a''] = Inl OrderError"
    by code_simp
  then show ?thesis
    by (simp add: element_def id_sel_def class_sel_def attr_def pseudoClass_def)
qed

theorem later_field_blocks_earlier_witness:
  "is_builder (run [Call cssSelectorBuilder (PPseudoElement ''after'')]) 2 \<and>
   truthy_str (lookup elPseudoElement (run [Call cssSelectorBuilder (PPseudoElement ''after'')]) 2) \<and>
   element (run [Call cssSelectorBuilder (PPseudoElement ''after'')]) 2 ''p'' = Inl OrderError \<and>
   id_sel (run [Call cssSelectorBuilder (PPseudoElement ''after'')]) 2 ''p'' = Inl OrderError \<and>
   class_sel (run [Call cssSelectorBuilder (PPseudoElement ''after'')]) 2 ''p'' = Inl OrderError \<and>
   attr (run [Call cssSelectorBuilder (PPseudoElement ''after'')]) 2 ''p'' = Inl OrderError \<and>
   pseudoClass (run [Call cssSelectorBuilder (PPseudoElement ''after'')]) 2 ''p'' = Inl OrderError"
proof -
  let ?H = "run [Call cssSelectorBuilder (PPseudoElement ''after'')]"
  have b: "is_builder ?H 2" by code_simp
  have p: "truthy_str (lookup elPseudoElement ?H 2)" by code_simp
  have e: "\<not> truthy_str (lookup el ?H 2)" "\<not> truthy_str (lookup elID ?H 2)" by code_simp+
  show ?thesis
    using later_field_blocks_earlier [of ?H 2 "''p''"] b p e by simp
qed

text \<open>
  C3 as stated fails twice: \<^verbatim>\<open>.element('a').id('x').element('b')\<close> sets the element
  after the id and fails with DuplicateError, not OrderError; and
  \<^verbatim>\<open>.pseudoElement('').pseudoClass('x')\<close> sets a pseudo-class after the pseudo-element
  and does not fail.
\<close>

theorem order_error_counterexample:
  "chain init_heap cssSelectorBuilder [PElement ''a'', PId ''x'', PElement ''b''] = Inl DuplicateError \<and>
   chain init_heap cssSelectorBuilder [PPseudoElement [], PPseudoClass ''x''] =
     Inr (3, run [Call cssSelectorBuilder (PPseudoElement []), Call 2 (PPseudoClass ''x'')])"
  by code_simp

lemma sequence_grows:
  assumes "wf h" "is_builder h s"
    and "f = elClass \<or> f = elAttrs \<or> f = elPseudoClass"
    and "f (blank (Some s)) = None"
    and "case lookup f h s of
           Some k \<Rightarrow> h' = h\<lparr>objs := objs h @ [Selector (blank (Some s))],
                            arrs := (arrs h)[k := arrs h ! k @ [v]]\<rparr>
         | None \<Rightarrow> objs h' = objs h @ [Selector s'] \<and> prototype s' = Some s \<and>
                    f s' = Some (length (arrs h)) \<and> arrs h' = arrs h @ [[v]]"
  shows "sequence h' (lookup f h' (length (objs h))) = sequence h (lookup f h s) @ [v]"
proof -
  have sl: "s < length (objs h)" using assms(2) by (rule is_builder_less)
  show ?thesis
  proof (cases "lookup f h s")
    case None
    then have o: "objs h' = objs h @ [Selector s']" and p: "prototype s' = Some s"
      and fs: "f s' = Some (length (arrs h))" and a: "arrs h' = arrs h @ [[v]]"
      using assms(5) by simp_all
    have "lookup f h' (length (objs h)) = Some (length (arrs h))"
      using lookup_new_object [OF sl p o, of f] fs by simp
    then show ?thesis using None a by (simp add: sequence_def array_def)
  next
    case (Some k)
    then have h': "h' = h\<lparr>objs := objs h @ [Selector (blank (Some s))],
                            arrs := (arrs h)[k := arrs h ! k @ [v]]\<rparr>"
      using assms(5) by simp
    have o: "objs h' = objs h @ [Selector (blank (Some s))]" by (simp add: h')
    have kb: "k < length (arrs h)" using wf_array_nonempty [OF assms(1) Some assms(3)] by simp
    have "lookup f h' (length (objs h)) = Some k"
      using lookup_new_object [OF sl blank_fields(1) o, of f] assms(4) Some by simp
    then show ?thesis using Some kb by (simp add: sequence_def h' array_push)
  qed
qed

text \<open>
  C4, amended. In a store reached by any sequence of calls: on a selector whose element
  is a non-empty string \<^verbatim>\<open>element(v)\<close> fails with DuplicateError, and so do
  \<^verbatim>\<open>id(v)\<close> where the id is a non-empty string and \<^verbatim>\<open>pseudoElement(v)\<close> where the
  pseudo-element is one; \<^verbatim>\<open>class(v)\<close>, \<^verbatim>\<open>attr(v)\<close> and \<^verbatim>\<open>pseudoClass(v)\<close> never fail
  with DuplicateError, and when they succeed the sequence of the selector returned is the
  receiver's sequence with \<open>v\<close> appended.
\<close>

theorem once_only_fields:
  "(is_builder (run cs) s \<longrightarrow>
     (truthy_str (lookup el (run cs) s) \<longrightarrow> element (run cs) s v = Inl DuplicateError) \<and>
     (truthy_str (lookup elID (run cs) s) \<longrightarrow> id_sel (run cs) s v = Inl DuplicateError) \<and>
     (truthy_str (lookup elPseudoElement (run cs) s) \<longrightarrow>
        pseudoElement (run cs) s v = Inl DuplicateError)) \<and>
   class_sel (run cs) s v \<noteq> Inl DuplicateError \<and>
   attr (run cs) s v \<noteq> Inl DuplicateError \<and>
   pseudoClass (run cs) s v \<noteq> Inl DuplicateError \<and>
   (\<forall>obj h'. class_sel (run cs) s v = Inr (obj, h') \<longrightarrow>
      sequence h' (lookup elClass h' obj) = sequence (run cs) (lookup elClass (run cs) s) @ [v]) \<and>
   (\<forall>obj h'. attr (run cs) s v = Inr (obj, h') \<longrightarrow>
      sequence h' (lookup elAttrs h' obj) = sequence (run cs) (lookup elAttrs (run cs) s) @ [v]) \<and>
   (\<forall>obj h'. pseudoClass (run cs) s v = Inr (obj, h') \<longrightarrow>
      sequence h' (lookup elPseudoClass h' obj) =
        sequence (run cs) (lookup elPseudoClass (run cs) s) @ [v])"
proof -
  let ?h = "run cs"
  have wf: "wf ?h" by (rule wf_run)
  have dup: "is_builder ?h s \<longrightarrow>
     (truthy_str (lookup el ?h s) \<longrightarrow> element ?h s v = Inl DuplicateError) \<and>
     (truthy_str (lookup elID ?h s) \<longrightarrow> id_sel ?h s v = Inl DuplicateError) \<and>
     (truthy_str (lookup elPseudoElement ?h s) \<longrightarrow> pseudoElement ?h s v = Inl DuplicateError)"
    by (simp add: element_def id_sel_def pseudoElement_def)
  have nodup: "class_sel ?h s v \<noteq> Inl DuplicateError \<and> attr ?h s v \<noteq> Inl DuplicateError \<and>
    pseudoClass ?h s v \<noteq> Inl DuplicateError"
    by (simp add: class_sel_def attr_def pseudoClass_def Let_def split: prod.splits option.splits)
  have c: "sequence h' (lookup elClass h' obj) = sequence ?h (lookup elClass ?h s) @ [v]"
    if r: "class_sel ?h s v = Inr (obj, h')" for obj h'
  proof -
    have b: "is_builder ?h s" using r by (auto simp: class_sel_def split: if_splits)
    have "sequence h' (lookup elClass h' (length (objs ?h))) = sequence ?h (lookup elClass ?h s) @ [v]"
      using class_sel_result [OF r]
      by (intro sequence_grows [OF wf b, where s' = "(blank (Some s))\<lparr>elClass := Some (length (arrs ?h))\<rparr>"])
        (auto split: option.splits)
    then show ?thesis using class_sel_result [OF r] by simp
  qed
  have a: "sequence h' (lookup elAttrs h' obj) = sequence ?h (lookup elAttrs ?h s) @ [v]"
    if r: "attr ?h s v = Inr (obj, h')" for obj h'
  proof -
    have b: "is_builder ?h s" using r by (auto simp: attr_def split: if_splits)
    have "sequence h' (lookup elAttrs h' (length (objs ?h))) = sequence ?h (lookup elAttrs ?h s) @ [v]"
      using attr_result [OF r]
      by (intro sequence_grows [OF wf b, where s' = "(blank (Some s))\<lparr>elAttrs := Some (length (arrs ?h))\<rparr>"])
        (auto split: option.splits)
    then show ?thesis using attr_result [OF r] by simp
  qed
  have p: "sequence h' (lookup elPseudoClass h' obj) = sequence ?h (lookup elPseudoClass ?h s) @ [v]"
    if r: "pseudoClass ?h s v = Inr (obj, h')" for obj h'
  proof -
    have b: "is_builder ?h s" using r by (auto simp: pseudoClass_def split: if_splits)
    have "sequence h' (lookup elPseudoClass h' (length (objs ?h))) =
        sequence ?h (lookup elPseudoClass ?h s) @ [v]"
      using pseudoClass_result [OF r]
      by (intro sequence_grows [OF wf b, where s' = "(blank (Some s))\<lparr>elPseudoClass := Some (length (arrs ?h))\<rparr>"])
        (auto split: option.splits)
    then show ?thesis using pseudoClass_result [OF r] by simp
  qed
  show ?thesis using dup nodup c a p by blast
qed

theorem once_only_fields_witness:
  "element (run [Call 0 (PElement ''a''), Call 2 (PId ''x''), Call 3 (PPseudoElement ''after'')]) 4 ''z'' =
     Inl DuplicateError \<and>
   id_sel (run [Call 0 (PElement ''a''), Call 2 (PId ''x''), Call 3 (PPseudoElement ''after'')]) 4 ''z'' =
     Inl DuplicateError \<and>
   pseudoElement (run [Call 0 (PElement ''a''), Call 2 (PId ''x''), Call 3 (PPseudoElement ''after'')]) 4 ''z'' =
     Inl DuplicateError \<and>
   class_sel (run [Call 0 (PClass ''a'')]) 2 ''b'' =
     Inr (3, run [Call 0 (PClass ''a''), Call 2 (PClass ''b'')]) \<and>
   sequence (run [Call 0 (PClass ''a''), Call 2 (PClass ''b'')])
     (lookup elClass (run [Call 0 (PClass ''a''), Call 2 (PClass ''b'')]) 3) = [''a'', ''b''] \<and>
   attr (run [Call 0 (PClass ''a'')]) 2 ''b'' =
     Inr (3, run [Call 0 (PClass ''a''), Call 2 (PAttr ''b'')]) \<and>
   sequence (run [Call 0 (PClass ''a''), Call 2 (PAttr ''b'')])
     (lookup elAttrs (run [Call 0 (PClass ''a''), Call 2 (PAttr ''b'')]) 3) = [''b'']"
proof -
  let ?H1 = "run [Call 0 (PElement ''a''), Call 2 (PId ''x''), Call 3 (PPseudoElement ''after'')]"
  let ?H2 = "run [Call 0 (PClass ''a'')]"
  have b: "is_builder ?H1 4" by code_simp
  have t: "truthy_str (lookup el ?H1 4)" "truthy_str (lookup elID ?H1 4)"
    "truthy_str (lookup elPseudoElement ?H1 4)"
    by code_simp+
  have c: "class_sel ?H2 2 ''b'' = Inr (3, run [Call 0 (PClass ''a''), Call 2 (PClass ''b'')])"
    by code_simp
  have a: "attr ?H2 2 ''b'' = Inr (3, run [Call 0 (PClass ''a''), Call 2 (PAttr ''b'')])"
    by code_simp
  have q: "sequence ?H2 (lookup elClass ?H2 2) = [''a'']" "sequence ?H2 (lookup elAttrs ?H2 2) = []"
    by code_simp+
  have d: "element ?H1 4 ''z'' = Inl DuplicateError \<and> id_sel ?H1 4 ''z'' = Inl DuplicateError \<and>
    pseudoElement ?H1 4 ''z'' = Inl DuplicateError"
    using once_only_fields [of "[Call 0 (PElement ''a''), Call 2 (PId ''x''), Call 3 (PPseudoElement ''after'')]"
        4 "''z''"] b t by blast
  have g: "sequence (run [Call 0 (PClass ''a''), Call 2 (PClass ''b'')])
       (lookup elClass (run [Call 0 (PClass ''a''), Call 2 (PClass ''b'')]) 3) =
       sequence ?H2 (lookup elClass ?H2 2) @ [''b''] \<and>
     sequence (run [Call 0 (PClass ''a''), Call 2 (PAttr ''b'')])
       (lookup elAttrs (run [Call 0 (PClass ''a''), Call 2 (PAttr ''b'')]) 3) =
       sequence ?H2 (lookup elAttrs ?H2 2) @ [''b'']"
    using once_only_fields [of "[Call 0 (PClass ''a'')]" 2 "''b''"] c a by blast
  show ?thesis using d g c a q by simp
qed

text \<open>
  C4 as stated fails on the empty string: after \<^verbatim>\<open>.element('')\<close> a second
  \<^verbatim>\<open>element('b')\<close> fails with a TypeError (the object made from \<^verbatim>\<open>prot\<close> has no
  property \<^verbatim>\<open>prot\<close> to create from), not with DuplicateError; after \<^verbatim>\<open>.id('')\<close> a
  second \<^verbatim>\<open>id('y')\<close> succeeds; after \<^verbatim>\<open>.pseudoElement('')\<close> a second
  \<^verbatim>\<open>pseudoElement('y')\<close> succeeds.
\<close>

theorem set_twice_counterexample:
  "chain init_heap cssSelectorBuilder [PElement [], PElement ''b''] = Inl TypeError \<and>
   chain init_heap cssSelectorBuilder [PId [], PId ''y''] =
     Inr (3, run [Call cssSelectorBuilder (PId []), Call 2 (PId ''y'')]) \<and>
   chain init_heap cssSelectorBuilder [PPseudoElement [], PPseudoElement ''y''] =
     Inr (3, run [Call cssSelectorBuilder (PPseudoElement []), Call 2 (PPseudoElement ''y'')])"
  by code_simp

text \<open>
  C5. For every selector \<open>this\<close> on which \<^verbatim>\<open>combine\<close> is called, all objects \<open>a\<close> and
  \<open>b\<close> of the store (simple or combined) and every string \<open>c\<close>, \<^verbatim>\<open>combine(a, c, b)\<close>
  returns a new combined object that holds \<open>a\<close> and \<open>b\<close> and whose \<^verbatim>\<open>stringify()\<close> is
  \<^verbatim>\<open>a.stringify() + ' ' + c + ' ' + b.stringify()\<close>; the combinator is not inspected.
\<close>

theorem combine_stringify:
  assumes "is_builder h this" "a < length (objs h)" "b < length (objs h)"
  shows "\<exists>obj h'. combine h this a c b = Inr (obj, h') \<and>
           objs h' ! obj = Combined (stringify h a @ '' '' @ c @ '' '' @ stringify h b) a b \<and>
           stringify h' obj = stringify h a @ '' '' @ c @ '' '' @ stringify h b"
  using assms by (simp add: combine_def Let_def stringify_def)

theorem combine_stringify_witness:
  "is_builder (run [Call 0 (PElement ''div''), Call 0 (PElement ''p'')]) 0 \<and>
   (\<exists>obj h'. combine (run [Call 0 (PElement ''div''), Call 0 (PElement ''p'')]) 0 2 ''=>'' 3 =
       Inr (obj, h') \<and>
     stringify h' obj = ''div => p'')"
proof -
  let ?H = "run [Call 0 (PElement ''div''), Call 0 (PElement ''p'')]"
  have b: "is_builder ?H 0" by code_simp
  have l: "length (objs ?H) = 4" by code_simp
  have s2: "stringify ?H 2 = ''div''" by code_simp
  have s3: "stringify ?H 3 = ''p''" by code_simp
  show ?thesis
    using combine_stringify [of ?H 0 2 3 "''=>''"] b l s2 s3 by auto
qed

section \<open>Properties of the rectangle and the JSON helpers\<close>

lemma map_of_put: "map_of (put k v xs) = (map_of xs)(k \<mapsto> v)"
  by (induction xs) auto

lemma Object_keys_own_props: "Object_keys obj = Inr ks \<Longrightarrow> ks = map fst (own_props obj)"
  by (cases obj) (auto simp: indices_def)

lemma no_proto_key:
  "map_of al ''__proto__'' = None \<Longrightarrow> ''__proto__'' \<notin> set (map fst al)"
  by (metis map_of_eq_None_iff set_map)

lemma set_prop_plain:
  assumes "key \<noteq> ''__proto__''" "link ob = Given proto" "assignable proto key"
    and "\<And>p. map_of (props ob) key = Some p \<Longrightarrow> \<exists>x. p = Value x True"
  shows "set_prop call_setter ob key v = Inr (define_own ob key v)"
proof (cases "map_of (props ob) key")
  case (Some p)
  then obtain x where "p = Value x True" using assms(4) by blast
  then show ?thesis using Some by (simp add: set_prop_def assign_found_def)
next
  case None
  show ?thesis
    using None assms(1,2,3)
    by (auto simp: set_prop_def assign_found_def assignable_def
        split: option.splits property.splits)
qed

lemma copy_keys:
  assumes "''__proto__'' \<notin> set ks" "set ks \<subseteq> dom (map_of (own_props obj))"
    and "\<forall>key \<in> set ks. assignable proto key"
    and "link ob = Given proto"
    and "\<forall>k p. map_of (props ob) k = Some p \<longrightarrow> (\<exists>x. p = Value x True)"
  shows "\<exists>ob'. forEach_key call_setter obj ob ks = Inr ob' \<and> link ob' = Given proto \<and>
           map_of (props ob') =
             (\<lambda>k. if k \<in> set ks then map_option (\<lambda>v. Value (Data v) True) (map_of (own_props obj) k)
                  else map_of (props ob) k)"
  using assms
proof (induction ks arbitrary: ob)
  case Nil
  then show ?case by simp
next
  case (Cons k ks)
  obtain v where v: "map_of (own_props obj) k = Some v" using Cons.prems(2) by auto
  have k: "k \<noteq> ''__proto__''" using Cons.prems(1) by auto
  have a: "assignable proto k" using Cons.prems(3) by simp
  let ?ob = "define_own ob k v"
  have step: "set_prop call_setter ob k v = Inr ?ob"
    using k Cons.prems(4) a Cons.prems(5) by (intro set_prop_plain) auto
  have m: "map_of (props ?ob) = (map_of (props ob))(k \<mapsto> Value (Data v) True)"
    by (simp add: define_own_def map_of_put)
  have l: "link ?ob = Given proto" using Cons.prems(4) by (simp add: define_own_def)
  have pl: "\<forall>k' p. map_of (props ?ob) k' = Some p \<longrightarrow> (\<exists>x. p = Value x True)"
    using Cons.prems(5) by (auto simp: m)
  obtain ob' where o: "forEach_key call_setter obj ?ob ks = Inr ob'" "link ob' = Given proto"
    "map_of (props ob') =
       (\<lambda>k. if k \<in> set ks then map_option (\<lambda>v. Value (Data v) True) (map_of (own_props obj) k)
            else map_of (props ?ob) k)"
    using Cons.IH [of ?ob] Cons.prems(1,2,3) l pl by auto
  have "forEach_key call_setter obj ob (k # ks) = Inr ob'"
    using v step o(1) by simp
  moreover have "map_of (props ob') =
      (\<lambda>k'. if k' \<in> set (k # ks)
            then map_option (\<lambda>v. Value (Data v) True) (map_of (own_props obj) k')
            else map_of (props ob) k')"
    using o(3) v by (auto simp: m)
  ultimately show ?case using o(2) by blast
qed

lemma fromJSON_object:
  assumes "JSON_parse json = Some obj" "obj \<noteq> JNull" "map_of (own_props obj) ''__proto__'' = None"
    and "list_all (assignable proto) (map fst (own_props obj))"
  shows "\<exists>newObj. fromJSON JSON_parse call_setter proto json = Inr newObj \<and>
           link newObj = Given proto \<and>
           map_of (props newObj) =
             (\<lambda>k. map_option (\<lambda>v. Value (Data v) True) (map_of (own_props obj) k))"
proof -
  obtain ks where ks: "Object_keys obj = Inr ks" using assms(2) by (cases obj) auto
  have eq: "ks = map fst (own_props obj)" using ks by (rule Object_keys_own_props)
  have np: "''__proto__'' \<notin> set ks" using assms(3) eq no_proto_key by blast
  have dm: "set ks \<subseteq> dom (map_of (own_props obj))"
    using eq by (auto simp: dom_map_of_conv_image_fst)
  have as: "\<forall>key \<in> set ks. assignable proto key"
    using assms(4) eq by (simp add: list_all_iff)
  let ?new = "\<lparr>link = Given proto, props = []\<rparr>"
  obtain ob' where o: "forEach_key call_setter obj ?new ks = Inr ob'" "link ob' = Given proto"
    "map_of (props ob') =
       (\<lambda>k. if k \<in> set ks then map_option (\<lambda>v. Value (Data v) True) (map_of (own_props obj) k)
            else map_of (props ?new) k)"
    using copy_keys [OF np dm as, of ?new call_setter] by auto
  have r: "fromJSON JSON_parse call_setter proto json = Inr ob'"
    using assms(1) ks o(1) by (simp add: fromJSON_def)
  have m: "map_of (props ob') =
      (\<lambda>k. map_option (\<lambda>v. Value (Data v) True) (map_of (own_props obj) k))"
  proof
    fix k
    show "map_of (props ob') k = map_option (\<lambda>v. Value (Data v) True) (map_of (own_props obj) k)"
    proof (cases "k \<in> set ks")
      case True
      then show ?thesis by (simp add: o(3))
    next
      case False
      then have "map_of (own_props obj) k = None"
        using eq by (simp add: map_of_eq_None_iff)
      then show ?thesis using False by (simp add: o(3))
    qed
  qed
  show ?thesis using r m o(2) by blast
qed

text \<open>
  C7, amended. For every parser in the place of \<^verbatim>\<open>JSON.parse\<close>, every setter code and
  every ordinary object \<^verbatim>\<open>proto\<close>: when the text is not valid JSON, \<^verbatim>\<open>fromJSON\<close>
  fails with the parse error; when the text denotes \<^verbatim>\<open>null\<close>, it fails with a
  \<^verbatim>\<open>TypeError\<close>; when the text denotes any other value that has no key
  \<^verbatim>\<open>__proto__\<close> and none of whose keys names a read-only property or an accessor of
  \<^verbatim>\<open>proto\<close>, it returns a new object whose prototype is \<^verbatim>\<open>proto\<close>, whose own
  properties are the keys of the parsed value with their parsed values, and through which
  every property of \<^verbatim>\<open>proto\<close> that no parsed key names is read. With
  \<^verbatim>\<open>{"radius":10}\<close>, on a \<^verbatim>\<open>proto\<close> through which \<^verbatim>\<open>radius\<close> is assignable, the object
  has \<^verbatim>\<open>radius\<close> 10 and reads the capability of the prototype.
\<close>

theorem fromJSON_sets_keys:
  "(JSON_parse json = None \<longrightarrow> fromJSON JSON_parse call_setter proto json = Inl SyntaxError) \<and>
   (JSON_parse json = Some JNull \<longrightarrow> fromJSON JSON_parse call_setter proto json = Inl TypeError) \<and>
   (\<forall>obj. JSON_parse json = Some obj \<and> obj \<noteq> JNull \<and>
           map_of (own_props obj) ''__proto__'' = None \<and>
           list_all (assignable proto) (map fst (own_props obj)) \<longrightarrow>
      (\<exists>newObj. fromJSON JSON_parse call_setter proto json = Inr newObj \<and>
         link newObj = Given proto \<and>
         (\<forall>name v. map_of (own_props obj) name = Some v \<longrightarrow>
            map_of (props newObj) name = Some (Value (Data v) True) \<and>
            read newObj name = Some (Value (Data v) True)) \<and>
         (\<forall>name. map_of (own_props obj) name = None \<longrightarrow>
            map_of (props newObj) name = None \<and>
            read newObj name = map_of (pprops proto) name))) \<and>
   (JSON_parse ''{\"radius\":10}'' = Some (JObj [(''radius'', JNum 10)]) \<and>
    assignable proto ''radius'' \<and>
    map_of (pprops proto) capability = Some (Value (Method m) w) \<and> capability \<noteq> ''radius'' \<longrightarrow>
      (\<exists>newObj. fromJSON JSON_parse call_setter proto ''{\"radius\":10}'' = Inr newObj \<and>
         read newObj ''radius'' = Some (Value (Data (JNum 10)) True) \<and>
         read newObj capability = Some (Value (Method m) w)))"
proof -
  have a: "JSON_parse json = None \<longrightarrow> fromJSON JSON_parse call_setter proto json = Inl SyntaxError"
    by (simp add: fromJSON_def)
  have b: "JSON_parse json = Some JNull \<longrightarrow> fromJSON JSON_parse call_setter proto json = Inl TypeError"
    by (simp add: fromJSON_def)
  have c: "\<exists>newObj. fromJSON JSON_parse call_setter proto t = Inr newObj \<and>
         link newObj = Given proto \<and>
         (\<forall>name v. map_of (own_props obj) name = Some v \<longrightarrow>
            map_of (props newObj) name = Some (Value (Data v) True) \<and>
            read newObj name = Some (Value (Data v) True)) \<and>
         (\<forall>name. map_of (own_props obj) name = None \<longrightarrow>
            map_of (props newObj) name = None \<and>
            read newObj name = map_of (pprops proto) name)"
    if h: "JSON_parse t = Some obj" "obj \<noteq> JNull" "map_of (own_props obj) ''__proto__'' = None"
      "list_all (assignable proto) (map fst (own_props obj))"
    for obj t
  proof -
    obtain newObj where n: "fromJSON JSON_parse call_setter proto t = Inr newObj"
      "link newObj = Given proto"
      "map_of (props newObj) =
         (\<lambda>k. map_option (\<lambda>v. Value (Data v) True) (map_of (own_props obj) k))"
      using fromJSON_object [where JSON_parse = JSON_parse and json = t, OF h] by blast
    show ?thesis using n by (auto simp: read_def)
  qed
  have d: "\<exists>newObj. fromJSON JSON_parse call_setter proto ''{\"radius\":10}'' = Inr newObj \<and>
         read newObj ''radius'' = Some (Value (Data (JNum 10)) True) \<and>
         read newObj capability = Some (Value (Method m) w)"
    if p: "JSON_parse ''{\"radius\":10}'' = Some (JObj [(''radius'', JNum 10)])"
      and r: "assignable proto ''radius''"
      and q: "map_of (pprops proto) capability = Some (Value (Method m) w)" "capability \<noteq> ''radius''"
  proof -
    have la: "list_all (assignable proto) (map fst (own_props (JObj [(''radius'', JNum 10)])))"
      using r by simp
    obtain newObj where n: "fromJSON JSON_parse call_setter proto ''{\"radius\":10}'' = Inr newObj"
      "\<forall>name v. map_of (own_props (JObj [(''radius'', JNum 10)])) name = Some v \<longrightarrow>
         map_of (props newObj) name = Some (Value (Data v) True) \<and>
         read newObj name = Some (Value (Data v) True)"
      "\<forall>name. map_of (own_props (JObj [(''radius'', JNum 10)])) name = None \<longrightarrow>
         map_of (props newObj) name = None \<and>
         read newObj name = map_of (pprops proto) name"
      using c [OF p _ _ la] by auto
    have "read newObj ''radius'' = Some (Value (Data (JNum 10)) True)" using n(2) by simp
    moreover have "read newObj capability = Some (Value (Method m) w)" using n(3) q by simp
    ultimately show ?thesis using n(1) by blast
  qed
  show ?thesis using a b c d by blast
qed

theorem fromJSON_sets_keys_witness:
  "fromJSON sample_parse sample_setter (Proto [(''getArea'', Value (Method ''f'') True)] True) ''{radius'' =
     Inl SyntaxError \<and>
   fromJSON sample_parse sample_setter (Proto [(''getArea'', Value (Method ''f'') True)] True) ''null'' =
     Inl TypeError \<and>
   (\<exists>newObj.
      fromJSON sample_parse sample_setter (Proto [(''getArea'', Value (Method ''f'') True)] True)
        ''{\"radius\":10}'' = Inr newObj \<and>
      link newObj = Given (Proto [(''getArea'', Value (Method ''f'') True)] True) \<and>
      read newObj ''radius'' = Some (Value (Data (JNum 10)) True) \<and>
      read newObj ''getArea'' = Some (Value (Method ''f'') True))"
proof -
  let ?proto = "Proto [(''getArea'', Value (Method ''f'') True)] True :: (string, int, string) proto"
  have n: "sample_parse ''{radius'' = None" by code_simp
  have z: "sample_parse ''null'' = Some JNull" by code_simp
  have p: "sample_parse ''{\"radius\":10}'' = Some (JObj [(''radius'', JNum 10)])" by code_simp
  have nn: "JObj [(''radius'', JNum (10 :: int))] \<noteq> JNull" by simp
  have np: "map_of (own_props (JObj [(''radius'', JNum (10 :: int))])) ''__proto__'' = None" by simp
  have la: "list_all (assignable ?proto) (map fst (own_props (JObj [(''radius'', JNum (10 :: int))])))"
    by (simp add: assignable_def)
  have "fromJSON sample_parse sample_setter ?proto ''{radius'' = Inl SyntaxError"
    using fromJSON_sets_keys [where JSON_parse = sample_parse and json = "''{radius''"
        and call_setter = sample_setter and proto = ?proto and capability = "''getArea''"
        and m = "''f''" and w = True] n
    by (elim conjE) simp
  moreover have "fromJSON sample_parse sample_setter ?proto ''null'' = Inl TypeError"
    using fromJSON_sets_keys [where JSON_parse = sample_parse and json = "''null''"
        and call_setter = sample_setter and proto = ?proto and capability = "''getArea''"
        and m = "''f''" and w = True] z
    by (elim conjE) simp
  moreover have "\<exists>newObj. fromJSON sample_parse sample_setter ?proto ''{\"radius\":10}'' = Inr newObj \<and>
      link newObj = Given ?proto \<and>
      read newObj ''radius'' = Some (Value (Data (JNum 10)) True) \<and>
      read newObj ''getArea'' = Some (Value (Method ''f'') True)"
  proof -
    note t = fromJSON_sets_keys [where JSON_parse = sample_parse and json = "''{\"radius\":10}''"
        and call_setter = sample_setter and proto = ?proto and capability = "''getArea''"
        and m = "''f''" and w = True]
    have third: "\<forall>obj. sample_parse ''{\"radius\":10}'' = Some obj \<and> obj \<noteq> JNull \<and>
             map_of (own_props obj) ''__proto__'' = None \<and>
             list_all (assignable ?proto) (map fst (own_props obj)) \<longrightarrow>
        (\<exists>newObj. fromJSON sample_parse sample_setter ?proto ''{\"radius\":10}'' = Inr newObj \<and>
           link newObj = Given ?proto \<and>
           (\<forall>name v. map_of (own_props obj) name = Some v \<longrightarrow>
              map_of (props newObj) name = Some (Value (Data v) True) \<and>
              read newObj name = Some (Value (Data v) True)) \<and>
           (\<forall>name. map_of (own_props obj) name = None \<longrightarrow>
              map_of (props newObj) name = None \<and>
              read newObj name = map_of (pprops ?proto) name))"
      using t by (elim conjE)
    then obtain newObj where o:
      "fromJSON sample_parse sample_setter ?proto ''{\"radius\":10}'' = Inr newObj"
      "link newObj = Given ?proto"
      "\<forall>name v. map_of (own_props (JObj [(''radius'', JNum (10 :: int))])) name = Some v \<longrightarrow>
            map_of (props newObj) name = Some (Value (Data v) True) \<and>
            read newObj name = Some (Value (Data v) True)"
      "\<forall>name. map_of (own_props (JObj [(''radius'', JNum (10 :: int))])) name = None \<longrightarrow>
            map_of (props newObj) name = None \<and>
            read newObj name = map_of (pprops ?proto) name"
      using p nn np la by blast
    have "read newObj ''radius'' = Some (Value (Data (JNum 10)) True)" using o(3) by simp
    moreover have "read newObj ''getArea'' = Some (Value (Method ''f'') True)" using o(4) by simp
    ultimately show ?thesis using o(1,2) by blast
  qed
  ultimately show ?thesis by blast
qed

text \<open>
  C7 as stated fails on valid JSON: on the text \<^verbatim>\<open>null\<close> the call throws a
  \<^verbatim>\<open>TypeError\<close> (\<^verbatim>\<open>Object.keys(null)\<close>) and returns no object; on
  \<^verbatim>\<open>{"__proto__":null}\<close> the object returned has lost its prototype and reads no method
  of \<^verbatim>\<open>proto\<close>; on \<^verbatim>\<open>{"getArea":1}\<close> the own property hides the method \<^verbatim>\<open>getArea\<close>;
  and on \<^verbatim>\<open>{"getArea":1,"radius":10}\<close> the key \<^verbatim>\<open>getArea\<close> is not set when
  \<^verbatim>\<open>getArea\<close> is read-only on \<^verbatim>\<open>proto\<close> (a frozen prototype) or a getter without a
  setter.
\<close>

theorem fromJSON_counterexample:
  "sample_parse ''null'' = Some JNull \<and>
   fromJSON sample_parse sample_setter (Proto [(''getArea'', Value (Method ''f'') True)] True) ''null'' =
     Inl TypeError \<and>
   fromJSON sample_parse sample_setter (Proto [(''getArea'', Value (Method ''f'') True)] True)
       ''{\"__proto__\":null}'' =
     Inr \<lparr>link = Null, props = []\<rparr> \<and>
   read (\<lparr>link = Null, props = []\<rparr> :: (string, int, string) object) ''getArea'' = None \<and>
   fromJSON sample_parse sample_setter (Proto [(''getArea'', Value (Method ''f'') True)] True)
       ''{\"getArea\":1}'' =
     Inr \<lparr>link = Given (Proto [(''getArea'', Value (Method ''f'') True)] True),
          props = [(''getArea'', Value (Data (JNum 1)) True)]\<rparr> \<and>
   fromJSON sample_parse sample_setter (Proto [(''getArea'', Value (Method ''f'') False)] True)
       ''{\"getArea\":1,\"radius\":10}'' =
     Inr \<lparr>link = Given (Proto [(''getArea'', Value (Method ''f'') False)] True),
          props = [(''radius'', Value (Data (JNum 10)) True)]\<rparr> \<and>
   fromJSON sample_parse sample_setter (Proto [(''getArea'', Accessor (Some ''g'') None)] True)
       ''{\"getArea\":1,\"radius\":10}'' =
     Inr \<lparr>link = Given (Proto [(''getArea'', Accessor (Some ''g'') None)] True),
          props = [(''radius'', Value (Data (JNum 10)) True)]\<rparr>"
  by code_simp

text \<open>
  C8. For all numbers \<open>w\<close> and \<open>h\<close>, the rectangle made from them has width \<open>w\<close>, height
  \<open>h\<close> and area \<open>w * h\<close>; the area of \<^verbatim>\<open>Rectangle(10, 20)\<close> is 200.
\<close>

theorem Rectangle_getArea:
  "width (Rectangle w h) = w \<and> height (Rectangle w h) = h \<and>
   getArea (Rectangle w h) = w * h \<and>
   getArea (Rectangle (10 :: int) 20) = 200"
  by (simp add: Rectangle_def getArea_def)

text \<open>
  C9. \<^verbatim>\<open>getJSON\<close> is the JSON serialization of its argument, and on the array
  \<^verbatim>\<open>[1,2,3]\<close> it returns the string \<^verbatim>\<open>[1,2,3]\<close>.
\<close>

theorem getJSON_serializes:
  "getJSON obj = JSON_stringify obj \<and>
   getJSON (JArr [JNum 1, JNum 2, JNum 3]) = ''[1,2,3]''"
proof -
  have "getJSON (JArr [JNum 1, JNum 2, JNum 3]) = ''[1,2,3]''" by code_simp
  then show ?thesis by (simp add: getJSON_def)
qed

end
